theory Spec2Isabelle
  imports Complex_Main "HOL-Library.Log_Nat"
begin

section \<open>JavaScript values\<close>

subsection \<open>Numbers\<close>

text \<open>
  A JavaScript number is an IEEE 754 binary64 value: a finite value, one of the two
  zeros, one of the two infinities, or NaN. \<open>Num 0\<close> is the positive zero and
  \<open>NegZero\<close> the negative one; a finite value is carried as the real number it denotes.
\<close>

datatype number = NaN | NegInf | NegZero | Num real | PosInf

fun is_nan :: "number \<Rightarrow> bool" where
  "is_nan NaN = True"
| "is_nan _ = False"

fun is_inf :: "number \<Rightarrow> bool" where
  "is_inf NegInf = True"
| "is_inf PosInf = True"
| "is_inf _ = False"

fun is_zero :: "number \<Rightarrow> bool" where
  "is_zero NegZero = True"
| "is_zero (Num r) = (r = 0)"
| "is_zero _ = False"

fun is_neg :: "number \<Rightarrow> bool" where
  "is_neg NegInf = True"
| "is_neg NegZero = True"
| "is_neg (Num r) = (r < 0)"
| "is_neg _ = False"

fun mag :: "number \<Rightarrow> real" where
  "mag (Num r) = \<bar>r\<bar>"
| "mag _ = 0"

definition zero_of :: "bool \<Rightarrow> number" where
  "zero_of neg = (if neg then NegZero else Num 0)"

definition inf_of :: "bool \<Rightarrow> number" where
  "inf_of neg = (if neg then NegInf else PosInf)"

subsection \<open>Rounding\<close>

text \<open>
  Every arithmetic operation computes the exact result and rounds it. The rounding is a
  parameter of the operations below, applied to nonzero exact results only:
  \<open>round_double\<close> is round-to-nearest, ties-to-even, onto binary64 (53 significant
  bits, exponents from -1022 to 1023, gradual underflow, overflow to infinity), which is
  what JavaScript does; \<open>exact\<close> keeps the exact result and serves to state what the
  formulas compute when nothing is rounded.
\<close>

type_synonym rounding = "real \<Rightarrow> number"

definition exact :: rounding where
  "exact x = Num x"

definition ilog2 :: "real \<Rightarrow> int" where
  \<comment> \<open>\<open>\<lfloor>log\<^sub>2 a\<rfloor>\<close> for \<open>a > 0\<close>\<close>
  "ilog2 a = (if 1 \<le> a then int (floorlog 2 (nat \<lfloor>a\<rfloor>)) - 1
              else - int (floorlog 2 (nat (\<lceil>1 / a\<rceil> - 1))))"

definition scale2 :: "int \<Rightarrow> real" where
  "scale2 e = (if 0 \<le> e then 2 ^ nat e else 1 / 2 ^ nat (- e))"

definition round_half_even :: "real \<Rightarrow> int" where
  "round_half_even r = (let f = \<lfloor>r\<rfloor>; d = r - of_int f in
     if d < 1 / 2 then f else if 1 / 2 < d then f + 1 else if even f then f else f + 1)"

definition round_double :: rounding where
  "round_double x = (let a = \<bar>x\<bar>;
       e = max (ilog2 a) (- 1022);
       ulp = scale2 (e - 52);
       q = round_half_even (a / ulp);
       y = of_int q * ulp
     in if 2 ^ 1024 \<le> y then inf_of (x < 0)
        else if q = 0 then zero_of (x < 0)
        else Num (if x < 0 then - y else y))"

subsection \<open>Arithmetic\<close>

definition fin_of :: "rounding \<Rightarrow> bool \<Rightarrow> real \<Rightarrow> number" where
  \<comment> \<open>the finite result with sign \<open>neg\<close> and exact magnitude \<open>m\<close>\<close>
  "fin_of rnd neg m = (if m = 0 then zero_of neg else rnd (if neg then - m else m))"

fun js_neg :: "number \<Rightarrow> number" where
  "js_neg NaN = NaN"
| "js_neg NegInf = PosInf"
| "js_neg PosInf = NegInf"
| "js_neg NegZero = Num 0"
| "js_neg (Num r) = (if r = 0 then NegZero else Num (- r))"

fun js_add :: "rounding \<Rightarrow> number \<Rightarrow> number \<Rightarrow> number" where
  "js_add rnd NaN _ = NaN"
| "js_add rnd _ NaN = NaN"
| "js_add rnd PosInf NegInf = NaN"
| "js_add rnd NegInf PosInf = NaN"
| "js_add rnd PosInf _ = PosInf"
| "js_add rnd _ PosInf = PosInf"
| "js_add rnd NegInf _ = NegInf"
| "js_add rnd _ NegInf = NegInf"
| "js_add rnd NegZero b = b"
| "js_add rnd (Num a) NegZero = Num a"
| "js_add rnd (Num a) (Num b) = (if a + b = 0 then Num 0 else rnd (a + b))"

definition js_sub :: "rounding \<Rightarrow> number \<Rightarrow> number \<Rightarrow> number" where
  "js_sub rnd a b = js_add rnd a (js_neg b)"

definition js_mul :: "rounding \<Rightarrow> number \<Rightarrow> number \<Rightarrow> number" where
  "js_mul rnd a b =
     (if is_nan a \<or> is_nan b then NaN
      else if is_inf a \<or> is_inf b
        then (if is_zero a \<or> is_zero b then NaN else inf_of (is_neg a \<noteq> is_neg b))
      else fin_of rnd (is_neg a \<noteq> is_neg b) (mag a * mag b))"

definition js_div :: "rounding \<Rightarrow> number \<Rightarrow> number \<Rightarrow> number" where
  "js_div rnd a b =
     (if is_nan a \<or> is_nan b then NaN
      else if is_inf a then (if is_inf b then NaN else inf_of (is_neg a \<noteq> is_neg b))
      else if is_inf b then zero_of (is_neg a \<noteq> is_neg b)
      else if is_zero b then (if is_zero a then NaN else inf_of (is_neg a \<noteq> is_neg b))
      else fin_of rnd (is_neg a \<noteq> is_neg b) (mag a / mag b))"

fun js_less :: "number \<Rightarrow> number \<Rightarrow> bool" where
  \<comment> \<open>the operator \<open><\<close> on numbers: NaN compares false, the two zeros are equal\<close>
  "js_less NaN _ = False"
| "js_less _ NaN = False"
| "js_less _ NegInf = False"
| "js_less NegInf _ = True"
| "js_less PosInf _ = False"
| "js_less _ PosInf = True"
| "js_less NegZero NegZero = False"
| "js_less NegZero (Num b) = (0 < b)"
| "js_less (Num a) NegZero = (a < 0)"
| "js_less (Num a) (Num b) = (a < b)"

definition Math_min :: "number \<Rightarrow> number \<Rightarrow> number" where
  \<comment> \<open>\<open>Math.min\<close> of two numbers: NaN if either is NaN; \<open>-0\<close> is below \<open>+0\<close>\<close>
  "Math_min a b =
     (if is_nan a \<or> is_nan b then NaN
      else if js_less a b then a
      else if js_less b a then b
      else if a = NegZero then a else b)"

definition Math_max :: "number \<Rightarrow> number \<Rightarrow> number" where
  "Math_max a b =
     (if is_nan a \<or> is_nan b then NaN
      else if js_less b a then a
      else if js_less a b then b
      else if a = NegZero then b else a)"

text \<open>
  A variable that holds a number or \<open>undefined\<close> is a \<open>number option\<close>, \<open>None\<close> being
  \<open>undefined\<close>. An arithmetic operator converts its operand to a number first, and
  \<open>undefined\<close> converts to NaN.
\<close>

fun to_number :: "number option \<Rightarrow> number" where
  "to_number None = NaN"
| "to_number (Some n) = n"

subsection \<open>Other values\<close>

text \<open>
  A value handed to a setter or stored in a field: a primitive, or a reference to an
  object (a function, an option bag, a d3 axis), of which only the identity matters.
\<close>

datatype jsval = Undefined | Null | Bool bool | Number number | Str string | Obj nat

fun truthy :: "jsval \<Rightarrow> bool" where
  "truthy Undefined = False"
| "truthy Null = False"
| "truthy (Bool b) = b"
| "truthy (Number n) = (\<not> is_nan n \<and> \<not> is_zero n)"
| "truthy (Str s) = (s \<noteq> [])"
| "truthy (Obj _) = True"

text \<open>
  The \<open>arguments\<close> of a call are the list of values passed. A named parameter is the
  argument at its position, or \<open>undefined\<close> when the call passes fewer. The
  \<open>arguments\<close> object itself is an object, and every object is truthy.
\<close>

definition param :: "jsval list \<Rightarrow> nat \<Rightarrow> jsval" where
  "param arguments i = (if i < length arguments then arguments ! i else Undefined)"

definition arguments_truthy :: "jsval list \<Rightarrow> bool" where
  "arguments_truthy arguments = True"

section \<open>Composite chart: aligning the two y axes\<close>

record ranges =
  lyAxisMin :: "number option"
  lyAxisMax :: "number option"
  ryAxisMin :: "number option"
  ryAxisMax :: "number option"

definition alignYAxisRanges ::
  "rounding \<Rightarrow> number option \<Rightarrow> number option \<Rightarrow> number option \<Rightarrow> number option \<Rightarrow> ranges" where
  "alignYAxisRanges rnd lyMin lyMax ryMin ryMax =
     (let extentRatio = js_div rnd (js_sub rnd (to_number ryMax) (to_number ryMin))
                                   (js_sub rnd (to_number lyMax) (to_number lyMin))
      in \<lparr> lyAxisMin = Some (Math_min (to_number lyMin) (js_div rnd (to_number ryMin) extentRatio)),
           lyAxisMax = Some (Math_max (to_number lyMax) (js_div rnd (to_number ryMax) extentRatio)),
           ryAxisMin = Some (Math_min (to_number ryMin) (js_mul rnd (to_number lyMin) extentRatio)),
           ryAxisMax = Some (Math_max (to_number ryMax) (js_mul rnd (to_number lyMax) extentRatio)) \<rparr>)"

section \<open>Composite chart: the chart and its children\<close>

subsection \<open>Child charts\<close>

text \<open>
  A child is any chart that can be drawn on a coordinate grid (a line chart, a bar
  chart): an object the composite holds by reference, configures through setters and
  queries for its axis side, its y extent and its legend items. The reports
  \<open>c_yAxisMin\<close> and \<open>c_yAxisMax\<close> are finite numbers; the legend items a child
  reports may depend on the colors it currently has.
\<close>

record child =
  c_height :: jsval
  c_width :: jsval
  c_margins :: jsval
  c_title :: jsval
  c_options :: jsval
  c_colors :: jsval
  c_filters :: jsval
  c_useRightYAxis :: bool
  c_yAxisMin :: real
  c_yAxisMax :: real
  c_legendablesOf :: "jsval \<Rightarrow> jsval list"

datatype call =
    Height jsval | Width jsval | Margins jsval | Title jsval | Options jsval
  | Colors jsval | ReplaceFilter jsval

text \<open>
  Modelled from the spec: the setters of a child chart (\<open>height\<close>, \<open>width\<close>,
  \<open>margins\<close>, \<open>title\<close>, \<open>options\<close>, \<open>colors\<close>, \<open>replaceFilter\<close>) are defined in the
  base and color mixins, which are not among the source files. The spec has the parent
  push its height, width, margins and title function down to the child, reset the
  child's configuration from the option bag, and replace the child's entire filter set
  with the parent's: each setter stores the value it is given.
\<close>

fun apply_call :: "call \<Rightarrow> child \<Rightarrow> child" where
  "apply_call (Height v) c = c\<lparr>c_height := v\<rparr>"
| "apply_call (Width v) c = c\<lparr>c_width := v\<rparr>"
| "apply_call (Margins v) c = c\<lparr>c_margins := v\<rparr>"
| "apply_call (Title v) c = c\<lparr>c_title := v\<rparr>"
| "apply_call (Options v) c = c\<lparr>c_options := v\<rparr>"
| "apply_call (Colors v) c = c\<lparr>c_colors := v\<rparr>"
| "apply_call (ReplaceFilter v) c = c\<lparr>c_filters := v\<rparr>"

text \<open>
  The chart objects live in a store, addressed by reference, so that a chart listed
  twice is one object. The trace records every setter call made on a child, in the order
  the calls are made.
\<close>

record world =
  store :: "nat \<Rightarrow> child"
  trace :: "(nat \<times> call) list"

definition child_call :: "nat \<Rightarrow> call \<Rightarrow> world \<Rightarrow> world" where
  "child_call child m w =
     \<lparr> store = (store w)(child := apply_call m (store w child)),
       trace = trace w @ [(child, m)] \<rparr>"

definition child_legendables :: "nat \<Rightarrow> world \<Rightarrow> jsval list" where
  "child_legendables child w = c_legendablesOf (store w child) (c_colors (store w child))"

subsection \<open>The composite chart\<close>

text \<open>
  Modelled from the spec: the coordinate grid mixin, which the composite chart extends,
  is not among the source files. Of its state the composite chart reads, through the
  getters \<open>height()\<close>, \<open>width()\<close>, \<open>margins()\<close>, \<open>title()\<close>, \<open>colors()\<close>,
  \<open>filter()\<close> and \<open>yAxisPadding()\<close>, the fields below. \<open>filters\<close> is what \<open>filter()\<close>
  returns: in the spec's words the parent's current filter set, in the words of the
  handler's own comment "the entire current set of filters".
\<close>

record coordinate_grid =
  height :: jsval
  width :: jsval
  margins :: jsval
  title :: jsval
  colors :: jsval
  filters :: jsval
  yAxisPadding :: real
  transitionDuration :: jsval
  transitionDelay :: jsval

record composite = coordinate_grid +
  p_children :: "nat list"
  p_childOptions :: jsval
  p_shareColors :: jsval
  p_shareTitle :: jsval
  p_alignYAxes :: jsval
  p_rightYAxis :: jsval
  p_rightYAxisLabel :: jsval
  p_rightYAxisLabelPadding :: jsval
  p_rightY :: jsval
  p_rightAxisGridLines :: jsval

definition DEFAULT_RIGHT_Y_AXIS_LABEL_PADDING :: number where
  "DEFAULT_RIGHT_Y_AXIS_LABEL_PADDING = Num 12"

text \<open>
  The constructor. \<open>super\<close> is the state the mixin's constructor leaves; \<open>emptyBag\<close>
  and \<open>axisRight\<close> are the fresh objects \<open>{}\<close> and \<open>d3.axisRight()\<close>. Registering the
  \<open>filtered\<close> handler and anchoring the chart to its DOM parent do not touch the fields.
\<close>

definition CompositeChart :: "coordinate_grid \<Rightarrow> jsval \<Rightarrow> jsval \<Rightarrow> composite" where
  "CompositeChart super emptyBag axisRight =
     \<lparr> height = height super, width = width super, margins = margins super,
       title = title super, colors = colors super, filters = filters super,
       yAxisPadding = yAxisPadding super,
       transitionDuration = Number (Num 500),
       transitionDelay = Number (Num 0),
       p_children = [],
       p_childOptions = emptyBag,
       p_shareColors = Bool False,
       p_shareTitle = Bool True,
       p_alignYAxes = Bool False,
       p_rightYAxis = axisRight,
       p_rightYAxisLabel = Number (Num 0),
       p_rightYAxisLabelPadding = Number DEFAULT_RIGHT_Y_AXIS_LABEL_PADDING,
       p_rightY = Undefined,
       p_rightAxisGridLines = Bool False \<rparr>"

text \<open>The handler of the \<open>filtered\<close> event, registered by the constructor.\<close>

definition on_filtered :: "composite \<Rightarrow> world \<Rightarrow> world" where
  "on_filtered this w =
     fold (\<lambda>child. child_call child (ReplaceFilter (filters this))) (p_children this) w"

subsection \<open>Getters and setters\<close>

text \<open>A getter/setter returns a value, or the chart itself for chaining.\<close>

datatype ret = Value jsval | This

definition useRightAxisGridLines :: "jsval list \<Rightarrow> composite \<Rightarrow> ret \<times> composite" where
  "useRightAxisGridLines arguments this =
     (if \<not> arguments_truthy arguments then (Value (p_rightAxisGridLines this), this)
      else (This, this\<lparr>p_rightAxisGridLines := param arguments 0\<rparr>))"

definition shareColors :: "jsval list \<Rightarrow> composite \<Rightarrow> ret \<times> composite" where
  "shareColors arguments this =
     (if length arguments = 0 then (Value (p_shareColors this), this)
      else (This, this\<lparr>p_shareColors := param arguments 0\<rparr>))"

definition shareTitle :: "jsval list \<Rightarrow> composite \<Rightarrow> ret \<times> composite" where
  "shareTitle arguments this =
     (if length arguments = 0 then (Value (p_shareTitle this), this)
      else (This, this\<lparr>p_shareTitle := param arguments 0\<rparr>))"

text \<open>
  \<open>alignYAxes\<close> as a setter also calls the mixin's \<open>rescale()\<close>, which is not among
  the source files and is taken as a parameter.
\<close>

definition alignYAxes ::
  "(composite \<Rightarrow> composite) \<Rightarrow> jsval list \<Rightarrow> composite \<Rightarrow> ret \<times> composite" where
  "alignYAxes rescale arguments this =
     (if length arguments = 0 then (Value (p_alignYAxes this), this)
      else (This, rescale (this\<lparr>p_alignYAxes := param arguments 0\<rparr>)))"

subsection \<open>compose, legendables\<close>

definition compose :: "nat list \<Rightarrow> composite \<Rightarrow> world \<Rightarrow> composite \<times> world" where
  "compose subChartArray this0 w0 =
     (let this = this0\<lparr>p_children := subChartArray\<rparr>
      in (this,
          fold (\<lambda>child w.
                  let w = child_call child (Height (height this)) w;
                      w = child_call child (Width (width this)) w;
                      w = child_call child (Margins (margins this)) w;
                      w = (if truthy (p_shareTitle this)
                           then child_call child (Title (title this)) w else w)
                  in child_call child (Options (p_childOptions this)) w)
               (p_children this) w0))"

definition children :: "composite \<Rightarrow> nat list" where
  "children this = p_children this"

definition legendables :: "composite \<Rightarrow> world \<Rightarrow> jsval list \<times> world" where
  "legendables this w0 =
     fold (\<lambda>child (items, w).
             let w = (if truthy (p_shareColors this)
                      then child_call child (Colors (colors this)) w else w)
             in (items @ child_legendables child w, w))
          (p_children this) ([], w0)"

subsection \<open>Axis extents\<close>

text \<open>
  \<open>d3.min\<close> and \<open>d3.max\<close> of the d3 library, on an array of numbers: the least and the
  greatest element, \<open>undefined\<close> for the empty array.
\<close>

fun d3_min :: "real list \<Rightarrow> number option" where
  "d3_min [] = None"
| "d3_min (x # xs) = Some (Num (fold min xs x))"

fun d3_max :: "real list \<Rightarrow> number option" where
  "d3_max [] = None"
| "d3_max (x # xs) = Some (Num (fold max xs x))"

text \<open>
  Modelled from the spec: \<open>utils.add\<close> is defined in the core utilities, which are not
  among the source files. The spec has the maximum extent be the greatest reported
  maximum "plus one configured padding amount": the sum of its two arguments.
\<close>

definition utils_add :: "rounding \<Rightarrow> number option \<Rightarrow> real \<Rightarrow> number" where
  "utils_add rnd l r = js_add rnd (to_number l) (Num r)"

definition leftYAxisChildren :: "composite \<Rightarrow> world \<Rightarrow> nat list" where
  "leftYAxisChildren this w = filter (\<lambda>child. \<not> c_useRightYAxis (store w child)) (p_children this)"

definition rightYAxisChildren :: "composite \<Rightarrow> world \<Rightarrow> nat list" where
  "rightYAxisChildren this w = filter (\<lambda>child. c_useRightYAxis (store w child)) (p_children this)"

definition getYAxisMin :: "nat list \<Rightarrow> world \<Rightarrow> real list" where
  "getYAxisMin charts w = map (\<lambda>c. c_yAxisMin (store w c)) charts"

definition yAxisMin_left :: "composite \<Rightarrow> world \<Rightarrow> number option" where
  "yAxisMin_left this w = d3_min (getYAxisMin (leftYAxisChildren this w) w)"

definition rightYAxisMin :: "composite \<Rightarrow> world \<Rightarrow> number option" where
  "rightYAxisMin this w = d3_min (getYAxisMin (rightYAxisChildren this w) w)"

definition getYAxisMax :: "nat list \<Rightarrow> world \<Rightarrow> real list" where
  "getYAxisMax charts w = map (\<lambda>c. c_yAxisMax (store w c)) charts"

definition yAxisMax_left :: "rounding \<Rightarrow> composite \<Rightarrow> world \<Rightarrow> number" where
  "yAxisMax_left rnd this w =
     utils_add rnd (d3_max (getYAxisMax (leftYAxisChildren this w) w)) (yAxisPadding this)"

definition rightYAxisMax :: "rounding \<Rightarrow> composite \<Rightarrow> world \<Rightarrow> number" where
  "rightYAxisMax rnd this w =
     utils_add rnd (d3_max (getYAxisMax (rightYAxisChildren this w) w)) (yAxisPadding this)"

text \<open>
  The public \<open>yAxisMin()\<close> and \<open>yAxisMax()\<close> of a composite chart throw; the private
  \<open>_yAxisMin()\<close> and \<open>_yAxisMax()\<close> above, which differ from them by the leading
  underscore only, are named \<open>yAxisMin_left\<close> and \<open>yAxisMax_left\<close>.
\<close>

datatype error = Error string | TypeError string

definition yAxisMin :: "composite \<Rightarrow> error + number" where
  "yAxisMin this = Inl (Error ''Not supported for this chart type'')"

definition yAxisMax :: "composite \<Rightarrow> error + number" where
  "yAxisMax this = Inl (Error ''Not supported for this chart type'')"

definition calculateYAxisRanges :: "rounding \<Rightarrow> bool \<Rightarrow> bool \<Rightarrow> composite \<Rightarrow> world \<Rightarrow> ranges" where
  "calculateYAxisRanges rnd left right this w =
     (let lyMin = (if left then yAxisMin_left this w else None);
          lyMax = (if left then Some (yAxisMax_left rnd this w) else None);
          ryMin = (if right then rightYAxisMin this w else None);
          ryMax = (if right then Some (rightYAxisMax rnd this w) else None);
          ranges = (if truthy (p_alignYAxes this) \<and> left \<and> right
                    then Some (alignYAxisRanges rnd lyMin lyMax ryMin ryMax) else None)
      in case ranges of
           Some r \<Rightarrow> r
         | None \<Rightarrow> \<lparr> lyAxisMin = lyMin, lyAxisMax = lyMax, ryAxisMin = ryMin, ryAxisMax = ryMax \<rparr>)"

text \<open>
  The ranges \<open>_prepareYAxis\<close> computes, its first three statements; the rest of it hands
  them to the d3 scales and draws the grid lines.
\<close>

definition prepareYAxis_ranges :: "rounding \<Rightarrow> composite \<Rightarrow> world \<Rightarrow> ranges" where
  "prepareYAxis_ranges rnd this w =
     (let left = (length (leftYAxisChildren this w) \<noteq> 0);
          right = (length (rightYAxisChildren this w) \<noteq> 0)
      in calculateYAxisRanges rnd left right this w)"

section \<open>The simple data adapter\<close>

text \<open>
  A record of a group is an object: its properties in insertion order. Objects live in a
  heap and are held by reference, so that writing a property through one reference shows
  through every other reference to the same object.
\<close>

type_synonym obj = "(string \<times> jsval) list"

record heap =
  objs :: "nat \<Rightarrow> obj"
  next_ref :: nat

fun get_prop :: "obj \<Rightarrow> string \<Rightarrow> jsval" where
  "get_prop [] k = Undefined"
| "get_prop ((k', v) # ps) k = (if k' = k then v else get_prop ps k)"

fun has_prop :: "obj \<Rightarrow> string \<Rightarrow> bool" where
  "has_prop [] k = False"
| "has_prop ((k', v) # ps) k = (k' = k \<or> has_prop ps k)"

fun set_prop :: "string \<Rightarrow> jsval \<Rightarrow> obj \<Rightarrow> obj" where
  "set_prop k v [] = [(k, v)]"
| "set_prop k v ((k', v') # ps) = (if k' = k then (k, v) # ps else (k', v') # set_prop k v ps)"

definition alloc :: "obj \<Rightarrow> heap \<Rightarrow> nat \<times> heap" where
  "alloc ob h = (next_ref h, \<lparr> objs = (objs h)(next_ref h := ob), next_ref = Suc (next_ref h) \<rparr>)"

text \<open>
  The configuration of the adapter. \<open>group\<close> is the array that the group's \<open>all()\<close>
  returns, the references to the group's own records, or \<open>None\<close> as long as no group is
  configured. An accessor is a function of the caller: it reads the record it is given
  and returns a value or throws.
\<close>

type_synonym accessor = "heap \<Rightarrow> nat \<Rightarrow> error + jsval"

record conf =
  group :: "nat list option"
  valueAccessor :: accessor
  ordering :: accessor

definition CFSimpleAdapter :: conf where
  "CFSimpleAdapter =
     \<lparr> group = None,
       valueAccessor = (\<lambda>h d. Inr (get_prop (objs h d) ''value'')),
       ordering = (\<lambda>h d. Inr (get_prop (objs h d) ''key'')) \<rparr>"

text \<open>\<open>entities.map(val => ({ ...val }))\<close>: a new array of fresh copies.\<close>

fun map_spread :: "nat list \<Rightarrow> heap \<Rightarrow> nat list \<times> heap" where
  "map_spread [] h = ([], h)"
| "map_spread (val # vals) h =
     (let (r, h) = alloc (objs h val) h;
          (rs, h) = map_spread vals h
      in (r # rs, h))"

text \<open>
  \<open>entities.forEach(e => { e._value = valueAccessor(e) })\<close>: an accessor that throws ends
  the loop, and leaves the records written so far as they are.
\<close>

fun forEach_value :: "accessor \<Rightarrow> nat list \<Rightarrow> heap \<Rightarrow> error option \<times> heap" where
  "forEach_value acc [] h = (None, h)"
| "forEach_value acc (e # es) h =
     (case acc h e of
        Inl err \<Rightarrow> (Some err, h)
      | Inr v \<Rightarrow> forEach_value acc es (h\<lparr>objs := (objs h)(e := set_prop ''_value'' v (objs h e))\<rparr>))"

definition data :: "conf \<Rightarrow> heap \<Rightarrow> (error + nat list) \<times> heap" where
  "data this_conf h0 =
     (case group this_conf of
        None \<Rightarrow> (Inl (TypeError ''Cannot read properties of undefined''), h0)
      | Some entities \<Rightarrow>
          (let (copies, h) = map_spread entities h0;
               (thrown, h) = forEach_value (valueAccessor this_conf) entities h
           in case thrown of
                Some err \<Rightarrow> (Inl err, h)
              | None \<Rightarrow> (Inr entities, h)))"

section \<open>Auxiliary definitions for the statements\<close>

text \<open>Sending a list of setter calls to one child, and what they do to the child.\<close>

definition send_all :: "nat \<Rightarrow> call list \<Rightarrow> world \<Rightarrow> world" where
  "send_all child ms w = fold (child_call child) ms w"

definition apply_calls :: "call list \<Rightarrow> child \<Rightarrow> child" where
  "apply_calls ms c = fold apply_call ms c"

text \<open>The calls \<open>compose\<close> makes on each child, and those \<open>legendables\<close> makes.\<close>

definition compose_calls :: "composite \<Rightarrow> call list" where
  "compose_calls this =
     [Height (height this), Width (width this), Margins (margins this)]
     @ (if truthy (p_shareTitle this) then [Title (title this)] else [])
     @ [Options (p_childOptions this)]"

definition share_colors_calls :: "composite \<Rightarrow> call list" where
  "share_colors_calls this = (if truthy (p_shareColors this) then [Colors (colors this)] else [])"

definition legend_step :: "composite \<Rightarrow> nat \<Rightarrow> jsval list \<times> world \<Rightarrow> jsval list \<times> world" where
  "legend_step this = (\<lambda>child (items, w).
             let w = (if truthy (p_shareColors this)
                      then child_call child (Colors (colors this)) w else w)
             in (items @ child_legendables child w, w))"

definition legend_of :: "composite \<Rightarrow> world \<Rightarrow> nat \<Rightarrow> jsval list" where
  "legend_of this w child = c_legendablesOf (store w child)
        (if truthy (p_shareColors this) then colors this else c_colors (store w child))"

text \<open>
  The position of zero on an axis with domain \<open>[lo, hi]\<close>, as the spec measures it:
  \<open>lo / (hi - lo)\<close>, computed with the arithmetic of the program; and the pair of
  positions on the left and the right axis.
\<close>

definition zero_position :: "rounding \<Rightarrow> number option \<Rightarrow> number option \<Rightarrow> number" where
  "zero_position rnd lo hi = js_div rnd (to_number lo) (js_sub rnd (to_number hi) (to_number lo))"

definition zero_positions :: "rounding \<Rightarrow> ranges \<Rightarrow> number \<times> number" where
  "zero_positions rnd r =
     (zero_position rnd (lyAxisMin r) (lyAxisMax r), zero_position rnd (ryAxisMin r) (ryAxisMax r))"

text \<open>
  A concrete chart: three children, the first and the third on the left axis, the second
  on the right one; y-axis padding 1. A child's legend is its name and its colors.
\<close>

definition example_child :: "bool \<Rightarrow> real \<Rightarrow> real \<Rightarrow> string \<Rightarrow> child" where
  "example_child right lo hi name =
     \<lparr> c_height = Undefined, c_width = Undefined, c_margins = Undefined, c_title = Undefined,
       c_options = Undefined, c_colors = Undefined, c_filters = Null,
       c_useRightYAxis = right, c_yAxisMin = lo, c_yAxisMax = hi,
       c_legendablesOf = (\<lambda>cols. [Str name, cols]) \<rparr>"

definition example_world :: world where
  "example_world =
     \<lparr> store = (\<lambda>_. example_child False (- 2) 8 ''a'')
                 (1 := example_child True (- 10) 40 ''b'',
                  2 := example_child False (- 5) 3 ''c''),
       trace = [] \<rparr>"

definition example_super :: coordinate_grid where
  "example_super =
     \<lparr> height = Number (Num 300), width = Number (Num 400), margins = Obj 10,
       title = Obj 11, colors = Obj 12, filters = Obj 13, yAxisPadding = 1,
       transitionDuration = Undefined, transitionDelay = Undefined \<rparr>"

definition example_chart :: composite where
  "example_chart =
     (CompositeChart example_super (Obj 14) (Obj 15))
       \<lparr>p_children := [0, 1, 2], p_shareColors := Bool True, p_alignYAxes := Bool True\<rparr>"

text \<open>A heap with one group record \<open>{key: 'a', value: 2}\<close>, at reference 0.\<close>

definition example_heap :: heap where
  "example_heap =
     \<lparr> objs = (\<lambda>_. [])(0 := [(''key'', Str ''a''), (''value'', Number (Num 2))]), next_ref = 1 \<rparr>"

text \<open>
  For the analysis of the rounded arithmetic. \<open>rdr x\<close> is the finite value
  \<open>round_double\<close> gives for \<open>x\<close>, and \<open>rdz\<close> extends it by \<open>rdz 0 = 0\<close>;
  \<open>sub_rd p m\<close> is the finite value of the rounded difference \<open>p - m\<close>, which is \<open>p\<close>
  itself when \<open>m\<close> is zero. \<open>approx e x y\<close> says that \<open>y\<close> is \<open>x\<close> up to the relative
  error \<open>e\<close>. A real is \<open>normal\<close> when its magnitude lies in the range of the normal
  binary64 numbers, \<open>ranged l h\<close> when it is zero or its magnitude lies between \<open>l\<close> and
  \<open>h\<close>, and \<open>moderate\<close> when it is zero or its magnitude lies between \<open>1 / 2 ^ 100\<close> and
  \<open>2 ^ 100\<close>.
\<close>

definition rdr :: "real \<Rightarrow> real" where
  "rdr x = (case round_double x of Num y \<Rightarrow> y | _ \<Rightarrow> 0)"

definition rdz :: "real \<Rightarrow> real" where
  "rdz x = (if x = 0 then 0 else rdr x)"

definition sub_rd :: "real \<Rightarrow> real \<Rightarrow> real" where
  "sub_rd p m = (if m = 0 then p else rdz (p - m))"

definition approx :: "real \<Rightarrow> real \<Rightarrow> real \<Rightarrow> bool" where
  "approx e x y \<longleftrightarrow> \<bar>y - x\<bar> \<le> e * \<bar>x\<bar>"

definition normal :: "real \<Rightarrow> bool" where
  "normal x \<longleftrightarrow> 1 / 2 ^ 1022 \<le> \<bar>x\<bar> \<and> \<bar>x\<bar> \<le> 2 ^ 1023"

definition ranged :: "real \<Rightarrow> real \<Rightarrow> real \<Rightarrow> bool" where
  "ranged l h x \<longleftrightarrow> x = 0 \<or> (l \<le> \<bar>x\<bar> \<and> \<bar>x\<bar> \<le> h)"

definition moderate :: "real \<Rightarrow> bool" where
  "moderate x \<longleftrightarrow> x = 0 \<or> (1 / 2 ^ 100 \<le> \<bar>x\<bar> \<and> \<bar>x\<bar> \<le> 2 ^ 100)"

section \<open>Auxiliary lemmas\<close>

subsection \<open>Exact arithmetic on finite numbers\<close>

lemma js_sub_exact: "js_sub exact (Num a) (Num b) = Num (a - b)"
  by (simp add: js_sub_def exact_def)

lemma js_div_exact: "0 < b \<Longrightarrow> js_div exact (Num a) (Num b) = Num (a / b)"
  by (auto simp: js_div_def fin_of_def exact_def zero_of_def abs_if)

lemma js_mul_exact: "0 < b \<Longrightarrow> js_mul exact (Num a) (Num b) = Num (a * b)"
  by (auto simp: js_mul_def fin_of_def exact_def zero_of_def abs_if)

lemma Math_min_Num: "Math_min (Num a) (Num b) = Num (min a b)"
  by (auto simp: Math_min_def)

lemma Math_max_Num: "Math_max (Num a) (Num b) = Num (max a b)"
  by (auto simp: Math_max_def)

lemma align_exact:
  assumes "lmin < lmax" and "rmin < rmax"
  shows "alignYAxisRanges exact (Some (Num lmin)) (Some (Num lmax)) (Some (Num rmin)) (Some (Num rmax)) =
    \<lparr> lyAxisMin = Some (Num (min lmin (rmin / ((rmax - rmin) / (lmax - lmin))))),
      lyAxisMax = Some (Num (max lmax (rmax / ((rmax - rmin) / (lmax - lmin))))),
      ryAxisMin = Some (Num (min rmin (lmin * ((rmax - rmin) / (lmax - lmin))))),
      ryAxisMax = Some (Num (max rmax (lmax * ((rmax - rmin) / (lmax - lmin))))) \<rparr>"
proof -
  have k: "0 < (rmax - rmin) / (lmax - lmin)" using assms by simp
  have d: "0 < lmax - lmin" using assms by simp
  show ?thesis
    unfolding alignYAxisRanges_def Let_def to_number.simps js_sub_exact js_div_exact[OF d]
      js_div_exact[OF k] js_mul_exact[OF k] Math_min_Num Math_max_Num ..
qed

lemma scaled_min: "0 < (k::real) \<Longrightarrow> min c (a * k) = k * min a (c / k)"
  by (simp add: min_def field_simps)

lemma scaled_max: "0 < (k::real) \<Longrightarrow> max c (a * k) = k * max a (c / k)"
  by (simp add: max_def field_simps)

lemma aligned_proportional:
  fixes lmin lmax rmin rmax :: real
  assumes "lmin < lmax" and "rmin < rmax"
  defines "k \<equiv> (rmax - rmin) / (lmax - lmin)"
  defines "L0 \<equiv> min lmin (rmin / k)" and "L1 \<equiv> max lmax (rmax / k)"
    and "R0 \<equiv> min rmin (lmin * k)" and "R1 \<equiv> max rmax (lmax * k)"
  shows "L0 < L1 \<and> R0 < R1 \<and> L0 / (L1 - L0) = R0 / (R1 - R0)"
proof -
  have k: "0 < k" using assms by simp
  have R0: "R0 = k * L0" unfolding R0_def L0_def by (rule scaled_min[OF k])
  have R1: "R1 = k * L1" unfolding R1_def L1_def by (rule scaled_max[OF k])
  have L: "L0 < L1" unfolding L0_def L1_def using assms(1) by (simp add: min_def max_def; linarith)
  have "R1 - R0 = k * (L1 - L0)" by (simp add: R0 R1 algebra_simps)
  with k L show ?thesis by (simp add: R0 R1)
qed

lemma zero_positions_exact:
  assumes "L0 < L1" and "R0 < R1"
  shows "zero_positions exact
           \<lparr> lyAxisMin = Some (Num L0), lyAxisMax = Some (Num L1),
             ryAxisMin = Some (Num R0), ryAxisMax = Some (Num R1) \<rparr> =
         (Num (L0 / (L1 - L0)), Num (R0 / (R1 - R0)))"
  using assms by (simp add: zero_positions_def zero_position_def js_sub_exact js_div_exact)

subsection \<open>Evaluating the rounding to binary64\<close>

lemma round_double_eval:
  assumes "ilog2 \<bar>x\<bar> = e0" and "max e0 (- 1022) = e" and "scale2 (e - 52) = u"
    and "round_half_even (\<bar>x\<bar> / u) = q" and "\<not> 2 ^ 1024 \<le> of_int q * u" and "q \<noteq> 0"
  shows "round_double x = Num (if x < 0 then - (of_int q * u) else of_int q * u)"
  unfolding round_double_def Let_def assms(1) assms(2) assms(3) assms(4) using assms(5,6) by simp

lemmas rd_simps = ilog2_def compute_floorlog scale2_def round_half_even_def Let_def

lemma rd_1:
  assumes "x = 1"
  shows "round_double x = Num (1)"
  unfolding assms
  by (subst round_double_eval[where ?e0.0 = "0" and e = "0" and u = "1 / 2 ^ 52" and q = "4503599627370496"])
     (simp_all add: rd_simps)

lemma rd_3:
  assumes "x = 3"
  shows "round_double x = Num (3)"
  unfolding assms
  by (subst round_double_eval[where ?e0.0 = "1" and e = "1" and u = "1 / 2 ^ 51" and q = "6755399441055744"])
     (simp_all add: rd_simps)

lemma rd_5:
  assumes "x = 5"
  shows "round_double x = Num (5)"
  unfolding assms
  by (subst round_double_eval[where ?e0.0 = "2" and e = "2" and u = "1 / 2 ^ 50" and q = "5629499534213120"])
     (simp_all add: rd_simps)

lemma rd_8:
  assumes "x = 8"
  shows "round_double x = Num (8)"
  unfolding assms
  by (subst round_double_eval[where ?e0.0 = "3" and e = "3" and u = "1 / 2 ^ 49" and q = "4503599627370496"])
     (simp_all add: rd_simps)

lemma rd_10:
  assumes "x = 10"
  shows "round_double x = Num (10)"
  unfolding assms
  by (subst round_double_eval[where ?e0.0 = "3" and e = "3" and u = "1 / 2 ^ 49" and q = "5629499534213120"])
     (simp_all add: rd_simps)

lemma rd_40:
  assumes "x = 40"
  shows "round_double x = Num (40)"
  unfolding assms
  by (subst round_double_eval[where ?e0.0 = "5" and e = "5" and u = "1 / 2 ^ 47" and q = "5629499534213120"])
     (simp_all add: rd_simps)

lemma rd_50:
  assumes "x = 50"
  shows "round_double x = Num (50)"
  unfolding assms
  by (subst round_double_eval[where ?e0.0 = "5" and e = "5" and u = "1 / 2 ^ 47" and q = "7036874417766400"])
     (simp_all add: rd_simps)

lemma rd_m2:
  assumes "x = - 2"
  shows "round_double x = Num (- 2)"
  unfolding assms
  by (subst round_double_eval[where ?e0.0 = "1" and e = "1" and u = "1 / 2 ^ 51" and q = "4503599627370496"])
     (simp_all add: rd_simps)

lemma rd_m3:
  assumes "x = - 3"
  shows "round_double x = Num (- 3)"
  unfolding assms
  by (subst round_double_eval[where ?e0.0 = "1" and e = "1" and u = "1 / 2 ^ 51" and q = "6755399441055744"])
     (simp_all add: rd_simps)

lemma rd_m10:
  assumes "x = - 10"
  shows "round_double x = Num (- 10)"
  unfolding assms
  by (subst round_double_eval[where ?e0.0 = "3" and e = "3" and u = "1 / 2 ^ 49" and q = "5629499534213120"])
     (simp_all add: rd_simps)

lemma rd_two_thirds:
  assumes "x = 2 / 3"
  shows "round_double x = Num (6004799503160661 / 2 ^ 53)"
  unfolding assms
  by (subst round_double_eval[where ?e0.0 = "-1" and e = "-1" and u = "1 / 2 ^ 53" and q = "6004799503160661"])
     (simp_all add: rd_simps)

lemma rd_m_third:
  assumes "x = - (1 / 3)"
  shows "round_double x = Num (- 6004799503160661 / 2 ^ 54)"
  unfolding assms
  by (subst round_double_eval[where ?e0.0 = "-2" and e = "-2" and u = "1 / 2 ^ 54" and q = "6004799503160661"])
     (simp_all add: rd_simps)

lemma rd_m_fifth:
  assumes "x = - (1 / 5)"
  shows "round_double x = Num (- 3602879701896397 / 2 ^ 54)"
  unfolding assms
  by (subst round_double_eval[where ?e0.0 = "-3" and e = "-3" and u = "1 / 2 ^ 55" and q = "7205759403792794"])
     (simp_all add: rd_simps)

lemma rd_m_three_fifths:
  assumes "x = - (3 / 5)"
  shows "round_double x = Num (- 5404319552844595 / 2 ^ 53)"
  unfolding assms
  by (subst round_double_eval[where ?e0.0 = "-1" and e = "-1" and u = "1 / 2 ^ 53" and q = "5404319552844595"])
     (simp_all add: rd_simps)

lemma rd_left_span:
  assumes "x = 6004799503160661 / 2 ^ 53 + 1"
  shows "round_double x = Num (3752999689475413 / 2 ^ 51)"
  unfolding assms
  by (subst round_double_eval[where ?e0.0 = "0" and e = "0" and u = "1 / 2 ^ 52" and q = "7505999378950826"])
     (simp_all add: rd_simps)

lemma rd_left_position:
  assumes "x = - (1 / (3752999689475413 / 2 ^ 51))"
  shows "round_double x = Num (- 1351079888211149 / 2 ^ 51)"
  unfolding assms
  by (subst round_double_eval[where ?e0.0 = "-1" and e = "-1" and u = "1 / 2 ^ 53" and q = "5404319552844596"])
     (simp_all add: rd_simps)

lemma rd_2:
  assumes "x = 2"
  shows "round_double x = Num (2)"
  unfolding assms
  by (subst round_double_eval[where ?e0.0 = "1" and e = "1" and u = "1 / 2 ^ 51" and q = "4503599627370496"])
     (simp_all add: rd_simps)

lemma rd_m_half:
  assumes "x = - (1 / 2)"
  shows "round_double x = Num (- 1 / 2 ^ 1)"
  unfolding assms
  by (subst round_double_eval[where ?e0.0 = "-1" and e = "-1" and u = "1 / 2 ^ 53" and q = "4503599627370496"])
     (simp_all add: rd_simps)

lemmas js_arith =
  js_sub_def js_div_def js_mul_def fin_of_def zero_of_def inf_of_def Math_min_def Math_max_def

subsection \<open>The error of the rounding to binary64\<close>

lemma scale2_powi: "scale2 e = 2 powi e"
proof (cases "0 \<le> e")
  case True
  then show ?thesis by (simp add: scale2_def power_int_def)
next
  case False
  then show ?thesis by (simp add: scale2_def power_int_def power_one_over inverse_eq_divide)
qed

lemma scale2_pos: "0 < scale2 e"
  by (simp add: scale2_def)

lemma scale2_add: "scale2 (i + j) = scale2 i * scale2 j"
  by (simp add: scale2_powi power_int_add)

lemma scale2_mono: "i \<le> j \<Longrightarrow> scale2 i \<le> scale2 j"
  unfolding scale2_powi by (rule power_int_increasing) simp_all

lemma scale2_strict_mono: "i < j \<Longrightarrow> scale2 i < scale2 j"
  unfolding scale2_powi by (rule power_int_strict_increasing) simp_all

lemma scale2_le_iff: "scale2 i \<le> scale2 j \<longleftrightarrow> i \<le> j"
  using scale2_mono[of i j] scale2_strict_mono[of j i] by linarith

lemma scale2_less_iff: "scale2 i < scale2 j \<longleftrightarrow> i < j"
  using scale2_mono[of j i] scale2_strict_mono[of i j] by linarith

lemma round_half_even_err: "\<bar>of_int (round_half_even r) - r\<bar> \<le> 1 / 2"
  unfolding round_half_even_def Let_def by (auto simp: abs_if; linarith)

lemma round_half_even_ge: "of_int n \<le> r \<Longrightarrow> n \<le> round_half_even r"
  unfolding round_half_even_def Let_def by (auto simp: le_floor_iff; linarith)

lemma real_pow2_le: "(2::nat) ^ k \<le> n \<Longrightarrow> (2::real) ^ k \<le> real n"
proof -
  assume "(2::nat) ^ k \<le> n"
  then have "real ((2::nat) ^ k) \<le> real n" by (rule iffD2[OF of_nat_le_iff])
  then show ?thesis by simp
qed

lemma real_pow2_gt: "n < (2::nat) ^ k \<Longrightarrow> real n + 1 \<le> (2::real) ^ k"
proof -
  assume "n < (2::nat) ^ k"
  then have "Suc n \<le> 2 ^ k" by simp
  then have "real (Suc n) \<le> real ((2::nat) ^ k)" by (rule iffD2[OF of_nat_le_iff])
  then show ?thesis by simp
qed

lemma ilog2_bounds:
  assumes "0 < a"
  shows "scale2 (ilog2 a) \<le> a \<and> a < scale2 (ilog2 a + 1)"
proof (cases "1 \<le> a")
  case True
  define n where "n = nat \<lfloor>a\<rfloor>"
  have n: "0 < n" using True by (simp add: n_def)
  from floorlog_bounds[OF n, of 2]
  have b: "2 ^ (floorlog 2 n - 1) \<le> n" "n < 2 ^ floorlog 2 n" by simp_all
  have f: "0 < floorlog 2 n" using n by (simp add: floorlog_def)
  have na1: "real n \<le> a" using True unfolding n_def by simp
  have na2: "a < real n + 1" using True unfolding n_def by simp
  have e: "ilog2 a = int (floorlog 2 n) - 1" using True by (simp add: ilog2_def n_def)
  have n1: "nat (int (floorlog 2 n) - 1) = floorlog 2 n - 1" by simp
  have "scale2 (ilog2 a) = 2 ^ (floorlog 2 n - 1)"
    using f unfolding e scale2_def n1 by simp
  also have "\<dots> \<le> real n" using b(1) by (rule real_pow2_le)
  finally have l: "scale2 (ilog2 a) \<le> a" using na1 by linarith
  have "real n + 1 \<le> 2 ^ floorlog 2 n" using b(2) by (rule real_pow2_gt)
  moreover have "scale2 (ilog2 a + 1) = 2 ^ floorlog 2 n" by (simp add: e scale2_def)
  ultimately show ?thesis using l na2 by linarith
next
  case False
  define y where "y = 1 / a"
  have y: "1 < y" using False assms by (simp add: y_def)
  define m where "m = nat (\<lceil>y\<rceil> - 1)"
  have c: "1 \<le> \<lceil>y\<rceil> - 1" using y by linarith
  have m: "0 < m" using c by (simp add: m_def)
  have rm: "real m = of_int \<lceil>y\<rceil> - 1" using c unfolding m_def by simp
  have my1: "real m < y" unfolding rm by linarith
  have my2: "y \<le> real m + 1" unfolding rm by simp
  from floorlog_bounds[OF m, of 2]
  have b: "2 ^ (floorlog 2 m - 1) \<le> m" "m < 2 ^ floorlog 2 m" by simp_all
  have f: "0 < floorlog 2 m" using m by (simp add: floorlog_def)
  have e: "ilog2 a = - int (floorlog 2 m)" using False by (simp add: ilog2_def m_def y_def)
  have "real m + 1 \<le> 2 ^ floorlog 2 m" using b(2) by (rule real_pow2_gt)
  then have u: "y \<le> 2 ^ floorlog 2 m" using my2 by linarith
  have "(2::real) ^ (floorlog 2 m - 1) \<le> real m" using b(1) by (rule real_pow2_le)
  then have lo: "2 ^ (floorlog 2 m - 1) < y" using my1 by linarith
  have s1: "scale2 (ilog2 a) = 1 / 2 ^ floorlog 2 m"
    using f unfolding e scale2_def by simp
  have n2: "nat (- (- int (floorlog 2 m) + 1)) = floorlog 2 m - 1" by simp
  have s2: "scale2 (ilog2 a + 1) = 1 / 2 ^ (floorlog 2 m - 1)"
  proof (cases "floorlog 2 m = 1")
    case True
    then show ?thesis unfolding e scale2_def by simp
  next
    case False
    with f have "\<not> 0 \<le> - int (floorlog 2 m) + 1" by simp
    then show ?thesis unfolding e scale2_def n2 by simp
  qed
  have a: "a = 1 / y" by (simp add: y_def)
  have p: "(0::real) < 2 ^ (floorlog 2 m - 1)" by simp
  have r1: "1 / 2 ^ floorlog 2 m \<le> 1 / y" using u y by (simp add: frac_le)
  have r2: "1 / y < 1 / 2 ^ (floorlog 2 m - 1)" using lo p by (simp add: frac_less2)
  have "scale2 (ilog2 a) \<le> 1 / y" unfolding s1 by (rule r1)
  moreover have "1 / y < scale2 (ilog2 a + 1)" unfolding s2 by (rule r2)
  ultimately show ?thesis using a by metis
qed

lemma round_double_normal:
  assumes "normal x"
  shows "round_double x = Num (rdr x) \<and> approx (1 / 2 ^ 53) x (rdr x)"
proof -
  define a where "a = \<bar>x\<bar>"
  have lo: "1 / 2 ^ 1022 \<le> a" and hi: "a \<le> 2 ^ 1023"
    using assms by (simp_all add: normal_def a_def)
  have a0: "0 < a" using lo by (rule less_le_trans[rotated]) simp
  define e where "e = ilog2 a"
  have b: "scale2 e \<le> a" "a < scale2 (e + 1)"
    using ilog2_bounds[OF a0] by (simp_all add: e_def)
  have "scale2 (- 1022) = 1 / 2 ^ 1022" by (simp add: scale2_def)
  then have "scale2 (- 1022) < scale2 (e + 1)" using lo b(2) by linarith
  then have e1: "- 1022 \<le> e" by (simp add: scale2_less_iff)
  then have m: "max e (- 1022) = e" by simp
  define ulp where "ulp = scale2 (e - 52)"
  have u0: "0 < ulp" by (simp add: ulp_def scale2_pos)
  have "scale2 e = scale2 ((e - 52) + 52)" by simp
  also have "\<dots> = ulp * 2 ^ 52" unfolding scale2_add ulp_def by (simp add: scale2_def)
  finally have se: "scale2 e = ulp * 2 ^ 52" .
  define r where "r = a / ulp"
  have r52: "2 ^ 52 \<le> r" using b(1) u0 unfolding r_def se by (simp add: field_simps)
  define q where "q = round_half_even r"
  have "of_int (2 ^ 52) \<le> r" using r52 by simp
  from round_half_even_ge[OF this] have q52: "2 ^ 52 \<le> q" by (simp add: q_def)
  then have q0: "q \<noteq> 0" by auto
  have qr: "\<bar>of_int q - r\<bar> \<le> 1 / 2" unfolding q_def by (rule round_half_even_err)
  define y where "y = of_int q * ulp"
  have "y - a = (of_int q - r) * ulp" using u0 by (simp add: y_def r_def field_simps)
  then have "\<bar>y - a\<bar> = \<bar>of_int q - r\<bar> * ulp" using u0 by (simp add: abs_mult)
  also have "\<dots> \<le> (1 / 2) * ulp" using qr u0 by (intro mult_right_mono) simp_all
  also have "\<dots> = scale2 e / 2 ^ 53" unfolding se by simp
  also have "\<dots> \<le> a / 2 ^ 53" using b(1) by (simp add: divide_right_mono)
  finally have err: "\<bar>y - a\<bar> \<le> a / 2 ^ 53" .
  then have "y \<le> a + a / 2 ^ 53" by linarith
  also have "\<dots> \<le> 2 ^ 1023 + 2 ^ 1023 / 2 ^ 53" using hi by (intro add_mono divide_right_mono) simp_all
  also have "\<dots> < 2 ^ 1024" by simp
  finally have nov: "\<not> 2 ^ 1024 \<le> y" by simp
  have rd: "round_double x = Num (if x < 0 then - y else y)"
    unfolding round_double_def Let_def a_def[symmetric] e_def[symmetric] m ulp_def[symmetric]
      r_def[symmetric] q_def[symmetric] y_def[symmetric]
    using nov q0 by simp
  then have rr: "rdr x = (if x < 0 then - y else y)" by (simp add: rdr_def)
  have "\<bar>rdr x - x\<bar> = \<bar>y - a\<bar>" unfolding rr a_def by (simp add: abs_if)
  then have "approx (1 / 2 ^ 53) x (rdr x)"
    using err by (simp add: approx_def a_def)
  with rd rr show ?thesis by simp
qed

lemma round_double_overflow:
  assumes "2 ^ 1024 \<le> \<bar>x\<bar>"
  shows "round_double x = inf_of (x < 0)"
proof -
  define a where "a = \<bar>x\<bar>"
  have lo: "2 ^ 1024 \<le> a" using assms by (simp add: a_def)
  have a0: "0 < a" using lo by (rule less_le_trans[rotated]) simp
  define e where "e = ilog2 a"
  have b: "scale2 e \<le> a" "a < scale2 (e + 1)"
    using ilog2_bounds[OF a0] by (simp_all add: e_def)
  have s: "scale2 1024 = 2 ^ 1024" by (simp add: scale2_def)
  then have "scale2 1024 < scale2 (e + 1)" using lo b(2) by linarith
  then have e1: "1024 \<le> e" by (simp add: scale2_less_iff)
  then have m: "max e (- 1022) = e" by simp
  define ulp where "ulp = scale2 (e - 52)"
  have u0: "0 < ulp" by (simp add: ulp_def scale2_pos)
  have "scale2 e = scale2 ((e - 52) + 52)" by simp
  also have "\<dots> = ulp * 2 ^ 52" unfolding scale2_add ulp_def by (simp add: scale2_def)
  finally have se: "scale2 e = ulp * 2 ^ 52" .
  define r where "r = a / ulp"
  have r52: "2 ^ 52 \<le> r" using b(1) u0 unfolding r_def se by (simp add: field_simps)
  define q where "q = round_half_even r"
  have "of_int (2 ^ 52) \<le> r" using r52 by simp
  from round_half_even_ge[OF this] have q52: "2 ^ 52 \<le> q" by (simp add: q_def)
  define y where "y = of_int q * ulp"
  have "(2::real) ^ 52 \<le> of_int q" using q52 by (metis of_int_le_iff of_int_numeral of_int_power)
  then have "2 ^ 52 * ulp \<le> y" unfolding y_def using u0 by (intro mult_right_mono) simp_all
  then have "scale2 e \<le> y" unfolding se by (simp add: mult.commute)
  moreover have "scale2 1024 \<le> scale2 e" using e1 by (rule scale2_mono)
  ultimately have ov: "2 ^ 1024 \<le> y" using s by linarith
  show ?thesis
    unfolding round_double_def Let_def a_def[symmetric] e_def[symmetric] m ulp_def[symmetric]
      r_def[symmetric] q_def[symmetric] y_def[symmetric]
    using ov by simp
qed

subsection \<open>Relative errors through the operations\<close>

lemma approx_refl: "0 \<le> e \<Longrightarrow> approx e x x"
  by (simp add: approx_def)

lemma approx_mono: "approx e x y \<Longrightarrow> e \<le> e' \<Longrightarrow> approx e' x y"
  unfolding approx_def by (meson abs_ge_zero mult_right_mono order_trans)

lemma approx_upper: "approx e x y \<Longrightarrow> \<bar>y\<bar> \<le> (1 + e) * \<bar>x\<bar>"
  unfolding approx_def by (auto simp: algebra_simps)

lemma approx_lower: "approx e x y \<Longrightarrow> (1 - e) * \<bar>x\<bar> \<le> \<bar>y\<bar>"
  unfolding approx_def by (auto simp: algebra_simps)

lemma approx_zero: "approx e 0 y \<Longrightarrow> y = 0"
  by (simp add: approx_def)

lemma approx_pos: "approx e x y \<Longrightarrow> e < 1 \<Longrightarrow> 0 < x \<Longrightarrow> 0 < y"
proof -
  assume a: "approx e x y" "e < 1" "0 < x"
  then have "x - y \<le> e * x" by (simp add: approx_def abs_if split: if_splits)
  moreover have "e * x < 1 * x" using a by (intro mult_strict_right_mono) simp_all
  ultimately show ?thesis by simp
qed

lemma approx_nonpos: "approx e x y \<Longrightarrow> e < 1 \<Longrightarrow> x \<le> 0 \<Longrightarrow> y \<le> 0"
proof -
  assume a: "approx e x y" "e < 1" "x \<le> 0"
  show ?thesis
  proof (cases "x = 0")
    case True
    with a show ?thesis by (simp add: approx_def)
  next
    case False
    with a have x: "x < 0" by simp
    from a have "y - x \<le> e * (- x)" using x by (simp add: approx_def abs_if split: if_splits)
    moreover have "e * (- x) < 1 * (- x)" using a x by (intro mult_strict_right_mono) simp_all
    ultimately show ?thesis by simp
  qed
qed

lemma approx_nonneg: "approx e x y \<Longrightarrow> e < 1 \<Longrightarrow> 0 \<le> x \<Longrightarrow> 0 \<le> y"
proof -
  assume a: "approx e x y" "e < 1" "0 \<le> x"
  show ?thesis
  proof (cases "x = 0")
    case True
    with a show ?thesis by (simp add: approx_def)
  next
    case False
    with a have "0 < x" by simp
    from approx_pos[OF a(1,2) this] show ?thesis by simp
  qed
qed

lemma approx_trans:
  assumes "approx e1 x y" and "approx e2 y z" and "0 \<le> e2"
  shows "approx (e1 + e2 + e1 * e2) x z"
proof -
  have "\<bar>z - x\<bar> \<le> \<bar>z - y\<bar> + \<bar>y - x\<bar>" by simp
  also have "\<dots> \<le> e2 * \<bar>y\<bar> + e1 * \<bar>x\<bar>"
    using assms(1,2) by (simp add: approx_def)
  also have "e2 * \<bar>y\<bar> \<le> e2 * ((1 + e1) * \<bar>x\<bar>)"
    using approx_upper[OF assms(1)] assms(3) by (rule mult_left_mono)
  finally show ?thesis by (simp add: approx_def algebra_simps)
qed

lemma approx_mult:
  assumes "approx e1 x x'" and "approx e2 y y'" and "0 \<le> e2"
  shows "approx (e1 + e2 + e1 * e2) (x * y) (x' * y')"
proof -
  have "x' * y' - x * y = (x' - x) * y + x' * (y' - y)" by (simp add: algebra_simps)
  then have "\<bar>x' * y' - x * y\<bar> \<le> \<bar>x' - x\<bar> * \<bar>y\<bar> + \<bar>x'\<bar> * \<bar>y' - y\<bar>"
    by (metis abs_mult abs_triangle_ineq)
  also have "\<bar>x' - x\<bar> * \<bar>y\<bar> \<le> (e1 * \<bar>x\<bar>) * \<bar>y\<bar>"
    using assms(1) by (intro mult_right_mono) (simp_all add: approx_def)
  also have "\<bar>x'\<bar> * \<bar>y' - y\<bar> \<le> ((1 + e1) * \<bar>x\<bar>) * (e2 * \<bar>y\<bar>)"
    using approx_upper[OF assms(1)] assms(2,3)
    by (intro mult_mono) (simp_all add: approx_def)
  finally show ?thesis by (simp add: approx_def abs_mult algebra_simps)
qed

lemma approx_div:
  assumes "approx e1 x x'" and "approx e2 y y'" and "0 \<le> e1" and "0 \<le> e2" and "e2 < 1"
    and "y \<noteq> 0"
  shows "approx ((e1 + e2) / (1 - e2)) (x / y) (x' / y')"
proof -
  have ly: "(1 - e2) * \<bar>y\<bar> \<le> \<bar>y'\<bar>" by (rule approx_lower[OF assms(2)])
  have p: "0 < (1 - e2) * \<bar>y\<bar>" using assms(5,6) by simp
  then have y': "y' \<noteq> 0" using ly by auto
  have "x' / y' - x / y = ((x' - x) * y - x * (y' - y)) / (y' * y)"
    using y' assms(6) by (simp add: field_simps)
  then have "\<bar>x' / y' - x / y\<bar> = \<bar>(x' - x) * y - x * (y' - y)\<bar> / (\<bar>y'\<bar> * \<bar>y\<bar>)"
    by (simp add: abs_mult)
  also have "\<dots> \<le> (\<bar>x' - x\<bar> * \<bar>y\<bar> + \<bar>x\<bar> * \<bar>y' - y\<bar>) / (\<bar>y'\<bar> * \<bar>y\<bar>)"
    by (intro divide_right_mono) (metis abs_mult abs_triangle_ineq4, simp)
  also have "\<dots> \<le> ((e1 * \<bar>x\<bar>) * \<bar>y\<bar> + \<bar>x\<bar> * (e2 * \<bar>y\<bar>)) / (\<bar>y'\<bar> * \<bar>y\<bar>)"
    using assms(1,2)
    by (intro divide_right_mono add_mono mult_right_mono mult_left_mono) (simp_all add: approx_def)
  also have "\<dots> = (e1 + e2) * \<bar>x\<bar> / \<bar>y'\<bar>"
  proof -
    have "\<bar>y\<bar> \<noteq> 0" "\<bar>y'\<bar> \<noteq> 0" using assms(6) y' by simp_all
    then show ?thesis by (simp add: field_simps)
  qed
  also have "\<dots> \<le> (e1 + e2) * \<bar>x\<bar> / ((1 - e2) * \<bar>y\<bar>)"
    using ly p assms(3,4) by (intro divide_left_mono) (simp_all add: mult_pos_pos y')
  finally show ?thesis by (simp add: approx_def abs_divide)
qed

lemma approx_min:
  assumes "approx e t t'" and "a \<le> 0" and "t \<le> 0" and "0 \<le> e"
  shows "approx e (min a t) (min a t')"
proof -
  have "\<bar>min a t' - min a t\<bar> \<le> \<bar>t' - t\<bar>" by (simp add: min_def abs_if)
  also have "\<dots> \<le> e * \<bar>t\<bar>" using assms(1) by (simp add: approx_def)
  also have "\<dots> \<le> e * \<bar>min a t\<bar>"
  proof -
    have "\<bar>t\<bar> \<le> \<bar>min a t\<bar>" using assms(2,3) by (simp add: min_def abs_if)
    then show ?thesis using assms(4) by (rule mult_left_mono)
  qed
  finally show ?thesis by (simp add: approx_def)
qed

lemma approx_max:
  assumes "approx e s s'" and "0 \<le> b" and "0 \<le> s" and "0 \<le> e"
  shows "approx e (max b s) (max b s')"
proof -
  have "\<bar>max b s' - max b s\<bar> \<le> \<bar>s' - s\<bar>" by (simp add: max_def abs_if)
  also have "\<dots> \<le> e * \<bar>s\<bar>" using assms(1) by (simp add: approx_def)
  also have "\<dots> \<le> e * \<bar>max b s\<bar>"
  proof -
    have "\<bar>s\<bar> \<le> \<bar>max b s\<bar>" using assms(2,3) by (simp add: max_def abs_if)
    then show ?thesis using assms(4) by (rule mult_left_mono)
  qed
  finally show ?thesis by (simp add: approx_def)
qed

lemma approx_span:
  assumes "approx e lo lo'" and "approx e hi hi'" and "lo \<le> 0" and "0 \<le> hi"
  shows "approx e (hi - lo) (hi' - lo')"
proof -
  have "\<bar>(hi' - lo') - (hi - lo)\<bar> \<le> \<bar>hi' - hi\<bar> + \<bar>lo' - lo\<bar>" by simp
  also have "\<dots> \<le> e * \<bar>hi\<bar> + e * \<bar>lo\<bar>"
    using assms(1,2) by (simp add: approx_def)
  also have "\<dots> = e * \<bar>hi - lo\<bar>" using assms(3,4) by (simp add: algebra_simps)
  finally show ?thesis by (simp add: approx_def)
qed

lemma rdz_approx:
  assumes "x = 0 \<or> normal x"
  shows "approx (1 / 2 ^ 53) x (rdz x)"
proof (cases "x = 0")
  case True
  then show ?thesis by (simp add: rdz_def approx_def)
next
  case False
  with assms have "normal x" by simp
  from round_double_normal[OF this] False show ?thesis by (simp add: rdz_def)
qed

lemma round_double_rdz: "normal x \<Longrightarrow> round_double x = Num (rdz x)"
proof -
  assume n: "normal x"
  then have "x \<noteq> 0" by (auto simp: normal_def)
  with round_double_normal[OF n] show ?thesis by (simp add: rdz_def)
qed

lemma js_sub_rd:
  assumes "b = 0 \<or> a = b \<or> normal (a - b)"
  shows "js_sub round_double (Num a) (Num b) = Num (sub_rd a b)"
proof (cases "b = 0")
  case True
  then show ?thesis by (simp add: js_sub_def sub_rd_def)
next
  case b: False
  show ?thesis
  proof (cases "a = b")
    case True
    with b show ?thesis by (simp add: js_sub_def sub_rd_def rdz_def)
  next
    case False
    with b assms have "normal (a - b)" by simp
    from round_double_rdz[OF this] b False show ?thesis
      by (simp add: js_sub_def sub_rd_def)
  qed
qed

lemma js_div_rd:
  assumes "0 < b" and "a = 0 \<or> normal (a / b)"
  shows "js_div round_double (Num a) (Num b) = Num (rdz (a / b))"
proof (cases "a = 0")
  case True
  then show ?thesis using assms(1) by (simp add: js_div_def fin_of_def zero_of_def rdz_def)
next
  case False
  with assms have n: "normal (a / b)" by simp
  have "(if a < 0 then - (\<bar>a\<bar> / \<bar>b\<bar>) else \<bar>a\<bar> / \<bar>b\<bar>) = a / b"
    using assms(1) by (simp add: abs_if)
  then show ?thesis
    using False assms(1) round_double_rdz[OF n]
    by (simp add: js_div_def fin_of_def)
qed

lemma js_mul_rd:
  assumes "0 < b" and "a = 0 \<or> normal (a * b)"
  shows "js_mul round_double (Num a) (Num b) = Num (rdz (a * b))"
proof (cases "a = 0")
  case True
  then show ?thesis using assms(1) by (simp add: js_mul_def fin_of_def zero_of_def rdz_def)
next
  case False
  with assms have n: "normal (a * b)" by simp
  have "(if a < 0 then - (\<bar>a\<bar> * \<bar>b\<bar>) else \<bar>a\<bar> * \<bar>b\<bar>) = a * b"
    using assms(1) by (simp add: abs_if)
  then show ?thesis
    using False assms(1) round_double_rdz[OF n]
    by (simp add: js_mul_def fin_of_def)
qed

lemma ranged_mono: "ranged l h x \<Longrightarrow> l' \<le> l \<Longrightarrow> h \<le> h' \<Longrightarrow> ranged l' h' x"
  by (auto simp: ranged_def)

lemma ranged_min: "ranged l h a \<Longrightarrow> ranged l h t \<Longrightarrow> ranged l h (min a t)"
  by (simp add: min_def)

lemma ranged_max: "ranged l h a \<Longrightarrow> ranged l h t \<Longrightarrow> ranged l h (max a t)"
  by (simp add: max_def)

lemma ranged_mult:
  assumes "ranged l1 h1 x" and "l2 \<le> \<bar>y\<bar>" and "\<bar>y\<bar> \<le> h2" and "0 \<le> l1" and "0 \<le> l2"
  shows "ranged (l1 * l2) (h1 * h2) (x * y)"
proof (cases "x = 0")
  case True
  then show ?thesis by (simp add: ranged_def)
next
  case False
  with assms(1) have x: "l1 \<le> \<bar>x\<bar>" "\<bar>x\<bar> \<le> h1" by (simp_all add: ranged_def)
  have "l1 * l2 \<le> \<bar>x\<bar> * \<bar>y\<bar>" using x(1) assms(2,4,5) by (intro mult_mono) simp_all
  moreover have "\<bar>x\<bar> * \<bar>y\<bar> \<le> h1 * h2" using x(2) assms(3) by (intro mult_mono) simp_all
  ultimately show ?thesis by (simp add: ranged_def abs_mult)
qed

lemma ranged_div:
  assumes "ranged l1 h1 x" and "l2 \<le> \<bar>y\<bar>" and "\<bar>y\<bar> \<le> h2" and "0 \<le> l1" and "0 < l2"
  shows "ranged (l1 / h2) (h1 / l2) (x / y)"
proof (cases "x = 0")
  case True
  then show ?thesis by (simp add: ranged_def)
next
  case False
  with assms(1) have x: "l1 \<le> \<bar>x\<bar>" "\<bar>x\<bar> \<le> h1" by (simp_all add: ranged_def)
  have y0: "0 < \<bar>y\<bar>" using assms(2,5) by linarith
  have "l1 / h2 \<le> \<bar>x\<bar> / \<bar>y\<bar>" using x(1) assms(3,4) y0 by (intro frac_le) simp_all
  moreover have "\<bar>x\<bar> / \<bar>y\<bar> \<le> h1 / l2" using x(2) assms(2,5) by (intro frac_le) simp_all
  ultimately show ?thesis by (simp add: ranged_def abs_divide)
qed

lemma round_step:
  assumes "approx e xs x" and "0 \<le> e" and "e \<le> 1 / 2"
    and "ranged (2 / 2 ^ 1022) (2 ^ 1022) xs"
  shows "x = 0 \<or> normal x" and "approx (e + 1 / 2 ^ 53 + e * (1 / 2 ^ 53)) xs (rdz x)"
proof -
  show n: "x = 0 \<or> normal x"
  proof (cases "xs = 0")
    case True
    with assms(1) show ?thesis by (simp add: approx_zero)
  next
    case False
    with assms(4) have b: "2 / 2 ^ 1022 \<le> \<bar>xs\<bar>" "\<bar>xs\<bar> \<le> 2 ^ 1022" by (simp_all add: ranged_def)
    have "(1 / 2) * \<bar>xs\<bar> \<le> (1 - e) * \<bar>xs\<bar>" using assms(3) by (intro mult_right_mono) simp_all
    also have "\<dots> \<le> \<bar>x\<bar>" by (rule approx_lower[OF assms(1)])
    finally have lo: "1 / 2 ^ 1022 \<le> \<bar>x\<bar>" using b(1) by simp
    have "\<bar>x\<bar> \<le> (1 + e) * \<bar>xs\<bar>" by (rule approx_upper[OF assms(1)])
    also have "\<dots> \<le> 2 * \<bar>xs\<bar>" using assms(3) by (intro mult_right_mono) simp_all
    finally have "\<bar>x\<bar> \<le> 2 ^ 1023" using b(2) by simp
    with lo show ?thesis by (simp add: normal_def)
  qed
  have "0 \<le> (1::real) / 2 ^ 53" by simp
  from approx_trans[OF assms(1) rdz_approx[OF n] this]
  show "approx (e + 1 / 2 ^ 53 + e * (1 / 2 ^ 53)) xs (rdz x)" .
qed

lemma sub_step:
  assumes "approx e xs (p - m)" and "0 \<le> e" and "e \<le> 1 / 2"
    and "ranged (2 / 2 ^ 1022) (2 ^ 1022) xs"
  shows "m = 0 \<or> p = m \<or> normal (p - m)"
    and "approx (e + 1 / 2 ^ 53 + e * (1 / 2 ^ 53)) xs (sub_rd p m)"
proof -
  from round_step[OF assms] have r: "p - m = 0 \<or> normal (p - m)"
    "approx (e + 1 / 2 ^ 53 + e * (1 / 2 ^ 53)) xs (rdz (p - m))" by simp_all
  from r(1) show "m = 0 \<or> p = m \<or> normal (p - m)" by auto
  show "approx (e + 1 / 2 ^ 53 + e * (1 / 2 ^ 53)) xs (sub_rd p m)"
  proof (cases "m = 0")
    case True
    have "e \<le> e + 1 / 2 ^ 53 + e * (1 / 2 ^ 53)" using assms(2) by simp
    from approx_mono[OF assms(1) this] True show ?thesis by (simp add: sub_rd_def)
  next
    case False
    with r(2) show ?thesis by (simp add: sub_rd_def)
  qed
qed

subsection \<open>The errors of the alignment\<close>

lemma moderate_ranged: "moderate x \<Longrightarrow> ranged (1 / 2 ^ 100) (2 ^ 100) x"
  by (simp add: moderate_def ranged_def)

lemma span_bounds:
  assumes "x \<le> 0" and "0 \<le> y" and "x \<noteq> y" and "moderate x" and "moderate y"
  shows "1 / 2 ^ 100 \<le> y - x" and "y - x \<le> 2 ^ 101"
proof -
  have ux: "\<bar>x\<bar> \<le> 2 ^ 100" and uy: "\<bar>y\<bar> \<le> 2 ^ 100"
    using assms(4,5) by (auto simp: moderate_def)
  show "y - x \<le> 2 ^ 101" using ux uy by simp
  show "1 / 2 ^ 100 \<le> y - x"
  proof (cases "x = 0")
    case True
    with assms(3) have "y \<noteq> 0" by simp
    with assms(5) have "1 / 2 ^ 100 \<le> \<bar>y\<bar>" by (simp add: moderate_def)
    with True assms(2) show ?thesis by simp
  next
    case False
    with assms(4) have "1 / 2 ^ 100 \<le> \<bar>x\<bar>" by (simp add: moderate_def)
    with assms(1,2) show ?thesis by simp
  qed
qed

lemma ratio_step:
  fixes a b c d :: real
  assumes "a \<le> 0" and "0 \<le> b" and "a \<noteq> b" and "c \<le> 0" and "0 \<le> d" and "c \<noteq> d"
    and "moderate a" and "moderate b" and "moderate c" and "moderate d"
  defines "ke \<equiv> (d - c) / (b - a)"
  defines "sr \<equiv> sub_rd d c" and "sl \<equiv> sub_rd b a"
  defines "k \<equiv> rdz (sr / sl)"
  shows "c = 0 \<or> d = c \<or> normal (d - c)" and "a = 0 \<or> b = a \<or> normal (b - a)"
    and "0 < sl" and "sr = 0 \<or> normal (sr / sl)"
    and "approx (5 / 2 ^ 53) ke k" and "0 < k"
    and "1 / 2 ^ 201 \<le> ke" and "ke \<le> 2 ^ 201"
proof -
  note r = span_bounds[OF assms(4,5,6,9,10)]
  note l = span_bounds[OF assms(1,2,3,7,8)]
  have rr: "ranged (2 / 2 ^ 1022) (2 ^ 1022) (d - c)" using r by (simp add: ranged_def)
  have lr: "ranged (2 / 2 ^ 1022) (2 ^ 1022) (b - a)" using l by (simp add: ranged_def)
  have z: "(0::real) \<le> 0" "(0::real) \<le> 1 / 2" by simp_all
  note s1 = sub_step[OF approx_refl[OF z(1)] z rr]
  note s2 = sub_step[OF approx_refl[OF z(1)] z lr]
  from s1(1) show c1: "c = 0 \<or> d = c \<or> normal (d - c)" .
  from s1(2) have ar: "approx (1 / 2 ^ 53) (d - c) sr" by (simp add: sr_def)
  from s2(1) show c2: "a = 0 \<or> b = a \<or> normal (b - a)" .
  from s2(2) have al: "approx (1 / 2 ^ 53) (b - a) sl" by (simp add: sl_def)
  have lp: "0 < b - a" using l(1) by (rule less_le_trans[rotated]) simp
  have rp: "0 < d - c" using r(1) by (rule less_le_trans[rotated]) simp
  from approx_pos[OF al _ lp] show slp: "0 < sl" by simp
  show klo: "1 / 2 ^ 201 \<le> ke"
  proof -
    have "(1 / 2 ^ 100) / 2 ^ 101 \<le> (d - c) / (b - a)"
      using r(1) l(2) lp by (intro frac_le) simp_all
    then show ?thesis by (simp add: ke_def)
  qed
  show khi: "ke \<le> 2 ^ 201"
  proof -
    have "(d - c) / (b - a) \<le> 2 ^ 101 / (1 / 2 ^ 100)"
      using r(2) l(1) rp by (intro frac_le) simp_all
    then show ?thesis by (simp add: ke_def)
  qed
  have kep: "0 < ke" using klo by (rule less_le_trans[rotated]) simp
  have "approx ((1 / 2 ^ 53 + 1 / 2 ^ 53) / (1 - 1 / 2 ^ 53)) ((d - c) / (b - a)) (sr / sl)"
    using lp by (intro approx_div[OF ar al]) simp_all
  then have aq: "approx (3 / 2 ^ 53) ke (sr / sl)"
    unfolding ke_def by (rule approx_mono) simp
  have kr: "ranged (2 / 2 ^ 1022) (2 ^ 1022) ke"
    using klo khi kep by (simp add: ranged_def)
  from round_step[OF aq _ _ kr]
  have n: "sr / sl = 0 \<or> normal (sr / sl)"
    and ak: "approx (3 / 2 ^ 53 + 1 / 2 ^ 53 + 3 / 2 ^ 53 * (1 / 2 ^ 53)) ke k"
    by (simp_all add: k_def)
  from n slp show "sr = 0 \<or> normal (sr / sl)" by auto
  from ak show a5: "approx (5 / 2 ^ 53) ke k" by (rule approx_mono) simp
  from approx_pos[OF a5 _ kep] show "0 < k" by simp
qed

lemma scaled_div_step:
  assumes "approx (5 / 2 ^ 53) ke k" and "1 / 2 ^ 201 \<le> ke" and "ke \<le> 2 ^ 201" and "moderate c"
  shows "c = 0 \<or> normal (c / k)"
    and "approx (8 / 2 ^ 53) (c / ke) (rdz (c / k))"
    and "ranged (1 / 2 ^ 301) (2 ^ 301) (c / ke)"
proof -
  have kep: "0 < ke" using assms(2) by (rule less_le_trans[rotated]) simp
  have kp: "0 < k" using approx_pos[OF assms(1) _ kep] by simp
  have "approx ((0 + 5 / 2 ^ 53) / (1 - 5 / 2 ^ 53)) (c / ke) (c / k)"
    using kep by (intro approx_div[OF approx_refl assms(1)]) simp_all
  then have aq: "approx (6 / 2 ^ 53) (c / ke) (c / k)" by (rule approx_mono) simp
  have "ranged ((1 / 2 ^ 100) / 2 ^ 201) (2 ^ 100 / (1 / 2 ^ 201)) (c / ke)"
    using assms(2,3) kep by (intro ranged_div[OF moderate_ranged[OF assms(4)]]) simp_all
  then show rg: "ranged (1 / 2 ^ 301) (2 ^ 301) (c / ke)" by (rule ranged_mono) simp_all
  then have rg2: "ranged (2 / 2 ^ 1022) (2 ^ 1022) (c / ke)" by (rule ranged_mono) simp_all
  from round_step[OF aq _ _ rg2]
  have n: "c / k = 0 \<or> normal (c / k)"
    and ak: "approx (6 / 2 ^ 53 + 1 / 2 ^ 53 + 6 / 2 ^ 53 * (1 / 2 ^ 53)) (c / ke) (rdz (c / k))"
    by simp_all
  from n kp show "c = 0 \<or> normal (c / k)" by auto
  from ak show "approx (8 / 2 ^ 53) (c / ke) (rdz (c / k))" by (rule approx_mono) simp
qed

lemma scaled_mult_step:
  assumes "approx (5 / 2 ^ 53) ke k" and "1 / 2 ^ 201 \<le> ke" and "ke \<le> 2 ^ 201" and "moderate a"
  shows "a = 0 \<or> normal (a * k)"
    and "approx (8 / 2 ^ 53) (a * ke) (rdz (a * k))"
    and "ranged (1 / 2 ^ 301) (2 ^ 301) (a * ke)"
proof -
  have kep: "0 < ke" using assms(2) by (rule less_le_trans[rotated]) simp
  have kp: "0 < k" using approx_pos[OF assms(1) _ kep] by simp
  have "approx (0 + 5 / 2 ^ 53 + 0 * (5 / 2 ^ 53)) (a * ke) (a * k)"
    by (intro approx_mult[OF approx_refl assms(1)]) simp_all
  then have aq: "approx (6 / 2 ^ 53) (a * ke) (a * k)" by (rule approx_mono) simp
  have "ranged ((1 / 2 ^ 100) * (1 / 2 ^ 201)) (2 ^ 100 * 2 ^ 201) (a * ke)"
    using assms(2,3) kep by (intro ranged_mult[OF moderate_ranged[OF assms(4)]]) simp_all
  then show rg: "ranged (1 / 2 ^ 301) (2 ^ 301) (a * ke)" by (rule ranged_mono) simp_all
  then have rg2: "ranged (2 / 2 ^ 1022) (2 ^ 1022) (a * ke)" by (rule ranged_mono) simp_all
  from round_step[OF aq _ _ rg2]
  have n: "a * k = 0 \<or> normal (a * k)"
    and ak: "approx (6 / 2 ^ 53 + 1 / 2 ^ 53 + 6 / 2 ^ 53 * (1 / 2 ^ 53)) (a * ke) (rdz (a * k))"
    by simp_all
  from n kp show "a = 0 \<or> normal (a * k)" by auto
  from ak show "approx (8 / 2 ^ 53) (a * ke) (rdz (a * k))" by (rule approx_mono) simp
qed

lemma ranged_upper: "ranged l h x \<Longrightarrow> 0 \<le> h \<Longrightarrow> \<bar>x\<bar> \<le> h"
  by (auto simp: ranged_def)

lemma side_position:
  fixes lo hi t0e t1e t0 t1 :: real
  assumes "lo \<le> 0" and "0 \<le> hi" and "t0e \<le> 0" and "0 \<le> t1e"
    and "approx (8 / 2 ^ 53) t0e t0" and "approx (8 / 2 ^ 53) t1e t1"
    and "moderate lo" and "moderate hi"
    and "ranged (1 / 2 ^ 301) (2 ^ 301) t0e" and "ranged (1 / 2 ^ 301) (2 ^ 301) t1e"
    and "1 / 2 ^ 100 \<le> hi - lo"
  defines "M0e \<equiv> min lo t0e" and "M1e \<equiv> max hi t1e"
  defines "M0 \<equiv> min lo t0" and "M1 \<equiv> max hi t1"
  defines "S \<equiv> sub_rd M1 M0"
  shows "M0 = 0 \<or> M1 = M0 \<or> normal (M1 - M0)"
    and "0 < S"
    and "M0 = 0 \<or> normal (M0 / S)"
    and "approx (1 / 2 ^ 48) (M0e / (M1e - M0e)) (rdz (M0 / S))"
proof -
  have e8: "(0::real) \<le> 8 / 2 ^ 53" by simp
  have a0: "approx (8 / 2 ^ 53) M0e M0"
    unfolding M0e_def M0_def by (rule approx_min[OF assms(5,1,3) e8])
  have a1: "approx (8 / 2 ^ 53) M1e M1"
    unfolding M1e_def M1_def by (rule approx_max[OF assms(6,2,4) e8])
  have s0: "M0e \<le> 0" "0 \<le> M1e" using assms(1,2) by (simp_all add: M0e_def M1e_def)
  have as: "approx (8 / 2 ^ 53) (M1e - M0e) (M1 - M0)"
    by (rule approx_span[OF a0 a1 s0])
  have lr: "ranged (1 / 2 ^ 301) (2 ^ 301) lo" "ranged (1 / 2 ^ 301) (2 ^ 301) hi"
    using assms(7,8) by (auto intro!: ranged_mono[OF moderate_ranged])
  have r0: "ranged (1 / 2 ^ 301) (2 ^ 301) M0e"
    unfolding M0e_def by (rule ranged_min[OF lr(1) assms(9)])
  have r1: "ranged (1 / 2 ^ 301) (2 ^ 301) M1e"
    unfolding M1e_def by (rule ranged_max[OF lr(2) assms(10)])
  have slo: "1 / 2 ^ 100 \<le> M1e - M0e"
    using assms(11) by (simp add: M0e_def M1e_def min_def max_def) 
  have "\<bar>M0e\<bar> \<le> 2 ^ 301" "\<bar>M1e\<bar> \<le> 2 ^ 301"
    using ranged_upper[OF r0] ranged_upper[OF r1] by simp_all
  then have shi: "M1e - M0e \<le> 2 ^ 302" by simp
  have sp: "0 < M1e - M0e" using slo by (rule less_le_trans[rotated]) simp
  have sr: "ranged (2 / 2 ^ 1022) (2 ^ 1022) (M1e - M0e)"
    using slo shi sp by (simp add: ranged_def)
  from sub_step[OF as _ _ sr]
  have st1: "M0 = 0 \<or> M1 = M0 \<or> normal (M1 - M0)"
    and st2: "approx (8 / 2 ^ 53 + 1 / 2 ^ 53 + 8 / 2 ^ 53 * (1 / 2 ^ 53)) (M1e - M0e) (sub_rd M1 M0)"
    by simp_all
  from st1 show "M0 = 0 \<or> M1 = M0 \<or> normal (M1 - M0)" .
  from st2 have "approx (8 / 2 ^ 53 + 1 / 2 ^ 53 + 8 / 2 ^ 53 * (1 / 2 ^ 53)) (M1e - M0e) S"
    by (simp add: S_def)
  then have aS: "approx (10 / 2 ^ 53) (M1e - M0e) S" by (rule approx_mono) simp
  from approx_pos[OF aS _ sp] show Sp: "0 < S" by simp
  have "approx ((8 / 2 ^ 53 + 10 / 2 ^ 53) / (1 - 10 / 2 ^ 53)) (M0e / (M1e - M0e)) (M0 / S)"
    using sp by (intro approx_div[OF a0 aS]) simp_all
  then have aq: "approx (19 / 2 ^ 53) (M0e / (M1e - M0e)) (M0 / S)" by (rule approx_mono) simp
  have "ranged ((1 / 2 ^ 301) / 2 ^ 302) (2 ^ 301 / (1 / 2 ^ 100)) (M0e / (M1e - M0e))"
    using slo shi sp by (intro ranged_div[OF r0]) simp_all
  then have pr: "ranged (2 / 2 ^ 1022) (2 ^ 1022) (M0e / (M1e - M0e))"
    by (rule ranged_mono) simp_all
  from round_step[OF aq _ _ pr]
  have n: "M0 / S = 0 \<or> normal (M0 / S)"
    and ap: "approx (19 / 2 ^ 53 + 1 / 2 ^ 53 + 19 / 2 ^ 53 * (1 / 2 ^ 53))
               (M0e / (M1e - M0e)) (rdz (M0 / S))"
    by simp_all
  from n Sp show "M0 = 0 \<or> normal (M0 / S)" by auto
  from ap show "approx (1 / 2 ^ 48) (M0e / (M1e - M0e)) (rdz (M0 / S))"
    by (rule approx_mono) simp
qed

subsection \<open>Calls on the children\<close>

lemma trace_send_all: "trace (send_all c ms w) = trace w @ map (Pair c) ms"
  unfolding send_all_def by (induction ms arbitrary: w) (simp_all add: child_call_def)

lemma store_send_all:
  "store (send_all c ms w) = (store w)(c := apply_calls ms (store w c))"
  unfolding send_all_def apply_calls_def
  by (induction ms arbitrary: w) (simp_all add: child_call_def)

lemma trace_broadcast:
  "trace (fold (\<lambda>c. send_all c ms) cs w) = trace w @ concat (map (\<lambda>c. map (Pair c) ms) cs)"
  by (induction cs arbitrary: w) (simp_all add: trace_send_all)

lemma store_broadcast:
  assumes idem: "\<And>ch. apply_calls ms (apply_calls ms ch) = apply_calls ms ch"
  shows "store (fold (\<lambda>c. send_all c ms) cs w) c =
           (if c \<in> set cs then apply_calls ms (store w c) else store w c)"
proof (induction cs arbitrary: w)
  case Nil
  show ?case by simp
next
  case (Cons x xs)
  show ?case by (simp add: Cons.IH store_send_all idem)
qed

lemma on_filtered_broadcast:
  "on_filtered this w = fold (\<lambda>c. send_all c [ReplaceFilter (filters this)]) (p_children this) w"
proof -
  have "(\<lambda>child. child_call child (ReplaceFilter (filters this))) =
        (\<lambda>c. send_all c [ReplaceFilter (filters this)])"
    by (intro ext) (simp add: send_all_def)
  then show ?thesis by (simp add: on_filtered_def)
qed

lemma compose_step:
  "(\<lambda>child w.
      let w = child_call child (Height (height t)) w;
          w = child_call child (Width (width t)) w;
          w = child_call child (Margins (margins t)) w;
          w = (if truthy (p_shareTitle t)
               then child_call child (Title (title t)) w else w)
      in child_call child (Options (p_childOptions t)) w) =
   (\<lambda>c. send_all c (compose_calls t))"
  by (intro ext) (simp add: send_all_def compose_calls_def Let_def)

lemma compose_calls_children:
  "compose_calls (this\<lparr>p_children := cs\<rparr>) = compose_calls this"
  by (simp add: compose_calls_def)

lemma compose_broadcast:
  "compose cs this w =
     (this\<lparr>p_children := cs\<rparr>, fold (\<lambda>c. send_all c (compose_calls this)) cs w)"
  unfolding compose_def compose_step by (simp add: Let_def compose_calls_children)

lemma compose_calls_idem:
  "apply_calls (compose_calls this) (apply_calls (compose_calls this) ch) =
   apply_calls (compose_calls this) ch"
  by (simp add: compose_calls_def apply_calls_def)

lemma apply_compose_calls:
  "apply_calls (compose_calls this) ch =
     ch\<lparr>c_height := height this, c_width := width this, c_margins := margins this,
        c_title := (if truthy (p_shareTitle this) then title this else c_title ch),
        c_options := p_childOptions this\<rparr>"
  by (simp add: compose_calls_def apply_calls_def)

lemma legend_step_eq:
  "legend_step this x (items, w) =
     (items @ legend_of this w x, send_all x (share_colors_calls this) w)"
  by (simp add: legend_step_def legend_of_def Let_def share_colors_calls_def send_all_def
      child_legendables_def child_call_def)

lemma legend_of_send_all:
  "legend_of this (send_all x (share_colors_calls this) w) = legend_of this w"
  by (intro ext) (simp add: legend_of_def store_send_all apply_calls_def share_colors_calls_def)

lemma legendables_fold:
  "fold (legend_step this) cs (items0, w0) =
   (items0 @ concat (map (legend_of this w0) cs),
    fold (\<lambda>c. send_all c (share_colors_calls this)) cs w0)"
proof (induction cs arbitrary: items0 w0)
  case Nil
  show ?case by simp
next
  case (Cons x xs)
  show ?case
    by (simp add: legend_step_eq Cons.IH legend_of_send_all)
qed

lemma legendables_eq:
  "legendables this w =
     (concat (map (legend_of this w) (p_children this)),
      fold (\<lambda>c. send_all c (share_colors_calls this)) (p_children this) w)"
  unfolding legendables_def legend_step_def[symmetric] legendables_fold by simp

subsection \<open>Least and greatest element\<close>

lemma d3_min_Min:
  assumes "xs \<noteq> []"
  shows "d3_min xs = Some (Num (Min (set xs)))"
proof (cases xs)
  case Nil
  with assms show ?thesis by simp
next
  case (Cons a list)
  have "Min (set (a # list)) = fold min list a" by (rule Min.set_eq_fold)
  then show ?thesis by (simp add: Cons)
qed

lemma d3_max_Max:
  assumes "xs \<noteq> []"
  shows "d3_max xs = Some (Num (Max (set xs)))"
proof (cases xs)
  case Nil
  with assms show ?thesis by simp
next
  case (Cons a list)
  have "Max (set (a # list)) = fold max list a" by (rule Max.set_eq_fold)
  then show ?thesis by (simp add: Cons)
qed

lemmas example_defs =
  example_chart_def example_world_def example_super_def example_child_def CompositeChart_def

section \<open>Results: the simple data adapter\<close>

text \<open>
  Claim C1 has the base read leave the records of the source untouched. The adapter
  builds the copies and drops them: the loop that writes \<open>_value\<close> runs over the array
  the group returned. For a group holding the one record \<open>{key: 'a', value: 2}\<close> and
  the default value accessor, \<open>data()\<close> returns the group's own record (reference 0,
  not the copy at reference 1), and that record has gained the property \<open>_value\<close>.
\<close>

theorem data_writes_source_record:
  "fst (data (CFSimpleAdapter\<lparr>group := Some [0]\<rparr>) example_heap) = Inr [0]
   \<and> objs example_heap 0 = [(''key'', Str ''a''), (''value'', Number (Num 2))]
   \<and> objs (snd (data (CFSimpleAdapter\<lparr>group := Some [0]\<rparr>) example_heap)) 0 =
       [(''key'', Str ''a''), (''value'', Number (Num 2)), (''_value'', Number (Num 2))]
   \<and> objs (snd (data (CFSimpleAdapter\<lparr>group := Some [0]\<rparr>) example_heap)) 1 =
       [(''key'', Str ''a''), (''value'', Number (Num 2))]"
  by (simp add: data_def CFSimpleAdapter_def example_heap_def alloc_def)

section \<open>Results: the composite chart\<close>

text \<open>
  Claim C2. The ranges the composite chart computes for its two y axes: when
  \<open>alignYAxes\<close> is enabled and both sides have a child, with
  \<open>extentRatio = (rightMax - rightMin) / (leftMax - leftMin)\<close> the left range is
  \<open>[min(leftMin, rightMin / extentRatio), max(leftMax, rightMax / extentRatio)]\<close> and the
  right range is \<open>[min(rightMin, leftMin * extentRatio), max(rightMax, leftMax * extentRatio)]\<close>;
  otherwise each side that has a child keeps its own extents (and a side without a child
  has none). This holds whatever the rounding of the arithmetic.
\<close>

theorem axis_ranges:
  "prepareYAxis_ranges rnd this w =
     (let leftMin = yAxisMin_left this w; leftMax = Some (yAxisMax_left rnd this w);
          rightMin = rightYAxisMin this w; rightMax = Some (rightYAxisMax rnd this w);
          anyLeft = (\<exists>child \<in> set (p_children this). \<not> c_useRightYAxis (store w child));
          anyRight = (\<exists>child \<in> set (p_children this). c_useRightYAxis (store w child))
      in if truthy (p_alignYAxes this) \<and> anyLeft \<and> anyRight
         then
           (let extentRatio = js_div rnd (js_sub rnd (to_number rightMax) (to_number rightMin))
                                         (js_sub rnd (to_number leftMax) (to_number leftMin))
            in \<lparr> lyAxisMin = Some (Math_min (to_number leftMin) (js_div rnd (to_number rightMin) extentRatio)),
                 lyAxisMax = Some (Math_max (to_number leftMax) (js_div rnd (to_number rightMax) extentRatio)),
                 ryAxisMin = Some (Math_min (to_number rightMin) (js_mul rnd (to_number leftMin) extentRatio)),
                 ryAxisMax = Some (Math_max (to_number rightMax) (js_mul rnd (to_number leftMax) extentRatio)) \<rparr>)
         else
           \<lparr> lyAxisMin = (if anyLeft then leftMin else None),
             lyAxisMax = (if anyLeft then leftMax else None),
             ryAxisMin = (if anyRight then rightMin else None),
             ryAxisMax = (if anyRight then rightMax else None) \<rparr>)"
proof -
  have l: "(leftYAxisChildren this w \<noteq> []) =
      (\<exists>child \<in> set (p_children this). \<not> c_useRightYAxis (store w child))"
    by (auto simp: leftYAxisChildren_def filter_empty_conv)
  have r: "(rightYAxisChildren this w \<noteq> []) =
      (\<exists>child \<in> set (p_children this). c_useRightYAxis (store w child))"
    by (auto simp: rightYAxisChildren_def filter_empty_conv)
  define anyLeft where "anyLeft = (\<exists>child \<in> set (p_children this). \<not> c_useRightYAxis (store w child))"
  define anyRight where "anyRight = (\<exists>child \<in> set (p_children this). c_useRightYAxis (store w child))"
  show ?thesis
    unfolding prepareYAxis_ranges_def calculateYAxisRanges_def alignYAxisRanges_def Let_def
      length_0_conv l r anyLeft_def[symmetric] anyRight_def[symmetric]
    by (cases anyLeft; cases anyRight; cases "truthy (p_alignYAxes this)"; simp)
qed

theorem axis_ranges_witness:
  "prepareYAxis_ranges exact example_chart example_world =
     \<lparr> lyAxisMin = Some (Num (- 5)), lyAxisMax = Some (Num (574 / 51)),
       ryAxisMin = Some (Num (- 255 / 14)), ryAxisMax = Some (Num 41) \<rparr>
   \<and> prepareYAxis_ranges exact (example_chart\<lparr>p_alignYAxes := Bool False\<rparr>) example_world =
     \<lparr> lyAxisMin = Some (Num (- 5)), lyAxisMax = Some (Num 9),
       ryAxisMin = Some (Num (- 10)), ryAxisMax = Some (Num 41) \<rparr>
   \<and> prepareYAxis_ranges exact (example_chart\<lparr>p_children := [1]\<rparr>) example_world =
     \<lparr> lyAxisMin = None, lyAxisMax = None,
       ryAxisMin = Some (Num (- 10)), ryAxisMax = Some (Num 41) \<rparr>"
  using axis_ranges[of exact example_chart example_world]
    axis_ranges[of exact "example_chart\<lparr>p_alignYAxes := Bool False\<rparr>" example_world]
    axis_ranges[of exact "example_chart\<lparr>p_children := [1]\<rparr>" example_world]
  by (simp add: example_defs Let_def yAxisMin_left_def yAxisMax_left_def rightYAxisMin_def
      rightYAxisMax_def leftYAxisChildren_def rightYAxisChildren_def getYAxisMin_def
      getYAxisMax_def utils_add_def exact_def js_arith)

text \<open>
  Claim C3, as amended. For every pair of input ranges that both contain zero, have
  nonzero span and whose nonzero endpoints have a magnitude between \<open>1 / 2 ^ 100\<close> and
  \<open>2 ^ 100\<close>, the aligned ranges place zero at the same fractional position on both axes
  within floating tolerance. The two quotients
  \<open>alignedLeftMin / (alignedLeftMax - alignedLeftMin)\<close> and
  \<open>alignedRightMin / (alignedRightMax - alignedRightMin)\<close>, computed from the output of
  the alignment with the rounded binary64 arithmetic of JavaScript, are finite numbers,
  each within the relative error \<open>1 / 2 ^ 48\<close> of the one position \<open>p\<close> that exact arithmetic
  gives for both axes; they differ from each other by at most \<open>\<bar>p\<bar> / 2 ^ 47\<close>.
\<close>

theorem aligned_zero_position:
  assumes "lmin \<le> 0" and "0 \<le> lmax" and "lmin \<noteq> lmax"
    and "rmin \<le> 0" and "0 \<le> rmax" and "rmin \<noteq> rmax"
    and "moderate lmin" and "moderate lmax" and "moderate rmin" and "moderate rmax"
  shows "\<exists>p pl pr.
      zero_positions exact
        (alignYAxisRanges exact (Some (Num lmin)) (Some (Num lmax)) (Some (Num rmin)) (Some (Num rmax))) =
        (Num p, Num p)
    \<and> zero_positions round_double
        (alignYAxisRanges round_double (Some (Num lmin)) (Some (Num lmax)) (Some (Num rmin)) (Some (Num rmax))) =
        (Num pl, Num pr)
    \<and> \<bar>pl - p\<bar> \<le> \<bar>p\<bar> / 2 ^ 48
    \<and> \<bar>pr - p\<bar> \<le> \<bar>p\<bar> / 2 ^ 48
    \<and> \<bar>pl - pr\<bar> \<le> \<bar>p\<bar> / 2 ^ 47"
proof -
  have l: "lmin < lmax" and r: "rmin < rmax" using assms by simp_all
  define ke where "ke = (rmax - rmin) / (lmax - lmin)"
  define L0e where "L0e = min lmin (rmin / ke)"
  define L1e where "L1e = max lmax (rmax / ke)"
  define R0e where "R0e = min rmin (lmin * ke)"
  define R1e where "R1e = max rmax (lmax * ke)"
  define p where "p = L0e / (L1e - L0e)"
  \<comment> \<open>exact arithmetic\<close>
  have xa: "alignYAxisRanges exact (Some (Num lmin)) (Some (Num lmax)) (Some (Num rmin)) (Some (Num rmax)) =
      \<lparr> lyAxisMin = Some (Num L0e), lyAxisMax = Some (Num L1e),
        ryAxisMin = Some (Num R0e), ryAxisMax = Some (Num R1e) \<rparr>"
    unfolding L0e_def L1e_def R0e_def R1e_def ke_def by (rule align_exact[OF l r])
  have xp: "L0e < L1e \<and> R0e < R1e \<and> L0e / (L1e - L0e) = R0e / (R1e - R0e)"
    unfolding L0e_def L1e_def R0e_def R1e_def ke_def by (rule aligned_proportional[OF l r])
  then have pR: "p = R0e / (R1e - R0e)" by (simp add: p_def)
  have xz: "zero_positions exact
      (alignYAxisRanges exact (Some (Num lmin)) (Some (Num lmax)) (Some (Num rmin)) (Some (Num rmax))) =
      (Num p, Num p)"
    unfolding xa using xp zero_positions_exact[of L0e L1e R0e R1e] by (simp add: p_def)
  \<comment> \<open>the ratio of the extents\<close>
  define sr where "sr = sub_rd rmax rmin"
  define sl where "sl = sub_rd lmax lmin"
  define k where "k = rdz (sr / sl)"
  note rs = ratio_step[OF assms]
  have c1: "rmin = 0 \<or> rmax = rmin \<or> normal (rmax - rmin)" by (rule rs(1))
  have c2: "lmin = 0 \<or> lmax = lmin \<or> normal (lmax - lmin)" by (rule rs(2))
  have slp: "0 < sl" unfolding sl_def by (rule rs(3))
  have c3: "sr = 0 \<or> normal (sr / sl)" unfolding sr_def sl_def by (rule rs(4))
  have k5: "approx (5 / 2 ^ 53) ke k" unfolding ke_def k_def sr_def sl_def by (rule rs(5))
  have kp: "0 < k" unfolding k_def sr_def sl_def by (rule rs(6))
  have klo: "1 / 2 ^ 201 \<le> ke" and khi: "ke \<le> 2 ^ 201"
    unfolding ke_def by (rule rs(7), rule rs(8))
  have kep: "0 < ke" using klo by (rule less_le_trans[rotated]) simp
  \<comment> \<open>the endpoints of one axis, on the scale of the other\<close>
  note d0 = scaled_div_step[OF k5 klo khi assms(9)]
  note d1 = scaled_div_step[OF k5 klo khi assms(10)]
  note m0 = scaled_mult_step[OF k5 klo khi assms(7)]
  note m1 = scaled_mult_step[OF k5 klo khi assms(8)]
  have sg: "rmin / ke \<le> 0" "0 \<le> rmax / ke" "lmin * ke \<le> 0" "0 \<le> lmax * ke"
    using assms(1,2,4,5) kep
    by (simp_all add: divide_nonpos_pos mult_nonpos_nonneg)
  \<comment> \<open>the two positions\<close>
  define L0 where "L0 = min lmin (rdz (rmin / k))"
  define L1 where "L1 = max lmax (rdz (rmax / k))"
  define R0 where "R0 = min rmin (rdz (lmin * k))"
  define R1 where "R1 = max rmax (rdz (lmax * k))"
  define SL where "SL = sub_rd L1 L0"
  define SR where "SR = sub_rd R1 R0"
  define pl where "pl = rdz (L0 / SL)"
  define pr where "pr = rdz (R0 / SR)"
  note ls = span_bounds[OF assms(1,2,3,7,8)]
  note rsp = span_bounds[OF assms(4,5,6,9,10)]
  note pL = side_position[OF assms(1,2) sg(1,2) d0(2) d1(2) assms(7,8) d0(3) d1(3) ls(1)]
  note pR' = side_position[OF assms(4,5) sg(3,4) m0(2) m1(2) assms(9,10) m0(3) m1(3) rsp(1)]
  have L: "L0 = 0 \<or> L1 = L0 \<or> normal (L1 - L0)" "0 < SL" "L0 = 0 \<or> normal (L0 / SL)"
    "approx (1 / 2 ^ 48) p pl"
    unfolding L0_def L1_def SL_def pl_def p_def L0e_def L1e_def
    by (rule pL(1), rule pL(2), rule pL(3), rule pL(4))
  have R: "R0 = 0 \<or> R1 = R0 \<or> normal (R1 - R0)" "0 < SR" "R0 = 0 \<or> normal (R0 / SR)"
    "approx (1 / 2 ^ 48) p pr"
    unfolding R0_def R1_def SR_def pr_def pR R0e_def R1e_def
    by (rule pR'(1), rule pR'(2), rule pR'(3), rule pR'(4))
  \<comment> \<open>what the program computes\<close>
  have e1: "js_sub round_double (Num rmax) (Num rmin) = Num sr"
    unfolding sr_def using c1 by (intro js_sub_rd) auto
  have e2: "js_sub round_double (Num lmax) (Num lmin) = Num sl"
    unfolding sl_def using c2 by (intro js_sub_rd) auto
  have e3: "js_div round_double (Num sr) (Num sl) = Num k"
    unfolding k_def by (rule js_div_rd[OF slp c3])
  have e4: "js_div round_double (Num rmin) (Num k) = Num (rdz (rmin / k))"
    by (rule js_div_rd[OF kp d0(1)])
  have e5: "js_div round_double (Num rmax) (Num k) = Num (rdz (rmax / k))"
    by (rule js_div_rd[OF kp d1(1)])
  have e6: "js_mul round_double (Num lmin) (Num k) = Num (rdz (lmin * k))"
    by (rule js_mul_rd[OF kp m0(1)])
  have e7: "js_mul round_double (Num lmax) (Num k) = Num (rdz (lmax * k))"
    by (rule js_mul_rd[OF kp m1(1)])
  have da: "alignYAxisRanges round_double (Some (Num lmin)) (Some (Num lmax)) (Some (Num rmin)) (Some (Num rmax)) =
      \<lparr> lyAxisMin = Some (Num L0), lyAxisMax = Some (Num L1),
        ryAxisMin = Some (Num R0), ryAxisMax = Some (Num R1) \<rparr>"
    unfolding alignYAxisRanges_def Let_def to_number.simps e1 e2 e3 e4 e5 e6 e7
      Math_min_Num Math_max_Num L0_def L1_def R0_def R1_def ..
  have e8: "js_sub round_double (Num L1) (Num L0) = Num SL"
    unfolding SL_def by (rule js_sub_rd[OF L(1)])
  have e9: "js_div round_double (Num L0) (Num SL) = Num pl"
    unfolding pl_def by (rule js_div_rd[OF L(2,3)])
  have e10: "js_sub round_double (Num R1) (Num R0) = Num SR"
    unfolding SR_def by (rule js_sub_rd[OF R(1)])
  have e11: "js_div round_double (Num R0) (Num SR) = Num pr"
    unfolding pr_def by (rule js_div_rd[OF R(2,3)])
  have dz: "zero_positions round_double
      (alignYAxisRanges round_double (Some (Num lmin)) (Some (Num lmax)) (Some (Num rmin)) (Some (Num rmax))) =
      (Num pl, Num pr)"
    unfolding da zero_positions_def zero_position_def by (simp add: e8 e9 e10 e11)
  \<comment> \<open>the tolerance\<close>
  have t1: "\<bar>pl - p\<bar> \<le> \<bar>p\<bar> / 2 ^ 48" using L(4) by (simp add: approx_def)
  have t2: "\<bar>pr - p\<bar> \<le> \<bar>p\<bar> / 2 ^ 48" using R(4) by (simp add: approx_def)
  have "\<bar>pl - pr\<bar> \<le> \<bar>pl - p\<bar> + \<bar>pr - p\<bar>" by simp
  also have "\<dots> \<le> \<bar>p\<bar> / 2 ^ 48 + \<bar>p\<bar> / 2 ^ 48" using t1 t2 by (rule add_mono)
  also have "\<dots> = \<bar>p\<bar> / 2 ^ 47" by simp
  finally have t3: "\<bar>pl - pr\<bar> \<le> \<bar>p\<bar> / 2 ^ 47" .
  from xz dz t1 t2 t3 show ?thesis by blast
qed

theorem aligned_zero_position_witness:
  "zero_positions exact
     (alignYAxisRanges exact (Some (Num (- 1))) (Some (Num 0)) (Some (Num (- 1))) (Some (Num 2))) =
     (Num (- 3 / 5), Num (- 3 / 5))
   \<and> alignYAxisRanges round_double (Some (Num (- 1))) (Some (Num 0)) (Some (Num (- 1))) (Some (Num 2)) =
     \<lparr> lyAxisMin = Some (Num (- 1)), lyAxisMax = Some (Num (6004799503160661 / 2 ^ 53)),
       ryAxisMin = Some (Num (- 3)), ryAxisMax = Some (Num 2) \<rparr>
   \<and> zero_positions round_double
     (alignYAxisRanges round_double (Some (Num (- 1))) (Some (Num 0)) (Some (Num (- 1))) (Some (Num 2))) =
     (Num (- 1351079888211149 / 2 ^ 51), Num (- 5404319552844595 / 2 ^ 53))
   \<and> \<bar>- 1351079888211149 / 2 ^ 51 - (- 5404319552844595 / 2 ^ 53 :: real)\<bar> \<le> \<bar>- 3 / 5\<bar> / 2 ^ 47
   \<and> zero_positions round_double
     (alignYAxisRanges round_double (Some (Num (- 2))) (Some (Num 8)) (Some (Num (- 10))) (Some (Num 40))) =
     (Num (- 3602879701896397 / 2 ^ 54), Num (- 3602879701896397 / 2 ^ 54))"
proof -
  have h: "(- 1 :: real) \<le> 0" "(0 :: real) \<le> 0" "(- 1 :: real) \<noteq> 0"
    "(- 1 :: real) \<le> 0" "(0 :: real) \<le> 2" "(- 1 :: real) \<noteq> 2"
    "moderate (- 1)" "moderate 0" "moderate (- 1)" "moderate 2"
    by (simp_all add: moderate_def)
  from aligned_zero_position[OF h] obtain p pl pr where
    x: "zero_positions exact
        (alignYAxisRanges exact (Some (Num (- 1))) (Some (Num 0)) (Some (Num (- 1))) (Some (Num 2))) =
        (Num p, Num p)"
    and d: "zero_positions round_double
        (alignYAxisRanges round_double (Some (Num (- 1))) (Some (Num 0)) (Some (Num (- 1))) (Some (Num 2))) =
        (Num pl, Num pr)"
    and t: "\<bar>pl - pr\<bar> \<le> \<bar>p\<bar> / 2 ^ 47"
    by blast
  have xv: "zero_positions exact
     (alignYAxisRanges exact (Some (Num (- 1))) (Some (Num 0)) (Some (Num (- 1))) (Some (Num 2))) =
     (Num (- 3 / 5), Num (- 3 / 5))"
    by (simp add: alignYAxisRanges_def zero_positions_def zero_position_def Let_def js_arith exact_def)
  have a: "alignYAxisRanges round_double (Some (Num (- 1))) (Some (Num 0)) (Some (Num (- 1))) (Some (Num 2)) =
     \<lparr> lyAxisMin = Some (Num (- 1)), lyAxisMax = Some (Num (6004799503160661 / 2 ^ 53)),
       ryAxisMin = Some (Num (- 3)), ryAxisMax = Some (Num 2) \<rparr>"
    by (simp add: alignYAxisRanges_def Let_def js_arith rd_1 rd_3 rd_m3 rd_two_thirds rd_m_third)
  have z: "zero_positions round_double
     \<lparr> lyAxisMin = Some (Num (- 1)), lyAxisMax = Some (Num (6004799503160661 / 2 ^ 53)),
       ryAxisMin = Some (Num (- 3)), ryAxisMax = Some (Num 2) \<rparr> =
     (Num (- 1351079888211149 / 2 ^ 51), Num (- 5404319552844595 / 2 ^ 53))"
    by (simp add: zero_positions_def zero_position_def js_arith rd_5 rd_left_span rd_left_position
        rd_m_three_fifths)
  from x xv have pv: "p = - 3 / 5" by simp
  from d a z have plv: "pl = - 1351079888211149 / 2 ^ 51" and prv: "pr = - 5404319552844595 / 2 ^ 53"
    by simp_all
  have tv: "\<bar>- 1351079888211149 / 2 ^ 51 - (- 5404319552844595 / 2 ^ 53 :: real)\<bar> \<le> \<bar>- 3 / 5\<bar> / 2 ^ 47"
    using t unfolding pv plv prv .
  have s: "alignYAxisRanges round_double (Some (Num (- 2))) (Some (Num 8)) (Some (Num (- 10))) (Some (Num 40)) =
      \<lparr> lyAxisMin = Some (Num (- 2)), lyAxisMax = Some (Num 8),
        ryAxisMin = Some (Num (- 10)), ryAxisMax = Some (Num 40) \<rparr>"
    by (simp add: alignYAxisRanges_def Let_def js_arith rd_5 rd_8 rd_10 rd_40 rd_50 rd_m2 rd_m10)
  have sz: "zero_positions round_double
      \<lparr> lyAxisMin = Some (Num (- 2)), lyAxisMax = Some (Num 8),
        ryAxisMin = Some (Num (- 10)), ryAxisMax = Some (Num 40) \<rparr> =
      (Num (- 3602879701896397 / 2 ^ 54), Num (- 3602879701896397 / 2 ^ 54))"
    by (simp add: zero_positions_def zero_position_def js_arith rd_10 rd_50 rd_m_fifth)
  show ?thesis
    unfolding a z s sz using xv tv by simp
qed

text \<open>
  Claim C3 as stated, for every pair of ranges, fails beyond any tolerance where the
  arithmetic overflows. For the left range \<open>[- (2 ^ 1023), 2 ^ 1023]\<close> and the right range
  \<open>[-1, 1]\<close> the left extent is \<open>Infinity\<close> and the ratio of the extents is zero: the
  aligned left range is \<open>[-Infinity, Infinity]\<close> and its quotient is \<open>NaN\<close>, while the
  right range stays \<open>[-1, 1]\<close> with the quotient \<open>-0.5\<close>.
\<close>

theorem aligned_zero_position_counterexample:
  "alignYAxisRanges round_double
     (Some (Num (- (2 ^ 1023)))) (Some (Num (2 ^ 1023))) (Some (Num (- 1))) (Some (Num 1)) =
     \<lparr> lyAxisMin = Some NegInf, lyAxisMax = Some PosInf,
       ryAxisMin = Some (Num (- 1)), ryAxisMax = Some (Num 1) \<rparr>
   \<and> zero_positions round_double
       (alignYAxisRanges round_double
          (Some (Num (- (2 ^ 1023)))) (Some (Num (2 ^ 1023))) (Some (Num (- 1))) (Some (Num 1))) =
     (NaN, Num (- 1 / 2))"
proof -
  have o: "round_double (2 ^ 1023 + 2 ^ 1023) = PosInf"
    by (subst round_double_overflow) (simp_all add: inf_of_def)
  have s: "js_sub round_double (Num (2 ^ 1023)) (Num (- (2 ^ 1023))) = PosInf"
    using o by (simp add: js_sub_def)
  have a: "alignYAxisRanges round_double
     (Some (Num (- (2 ^ 1023)))) (Some (Num (2 ^ 1023))) (Some (Num (- 1))) (Some (Num 1)) =
     \<lparr> lyAxisMin = Some NegInf, lyAxisMax = Some PosInf,
       ryAxisMin = Some (Num (- 1)), ryAxisMax = Some (Num 1) \<rparr>"
    unfolding alignYAxisRanges_def Let_def to_number.simps s
    by (simp add: js_arith rd_2)
  have z: "zero_positions round_double
     \<lparr> lyAxisMin = Some NegInf, lyAxisMax = Some PosInf,
       ryAxisMin = Some (Num (- 1)), ryAxisMax = Some (Num 1) \<rparr> = (NaN, Num (- 1 / 2))"
    by (simp add: zero_positions_def zero_position_def js_arith rd_2 rd_m_half)
  show ?thesis unfolding a z by simp
qed

text \<open>
  Claim C4. \<open>yAxisMin()\<close> and \<open>yAxisMax()\<close> of a composite chart throw, whatever the
  state of the chart: neither returns a value.
\<close>

theorem composite_yAxis_throws:
  "yAxisMin this = Inl (Error ''Not supported for this chart type'')
   \<and> yAxisMax this = Inl (Error ''Not supported for this chart type'')
   \<and> isl (yAxisMin this) \<and> isl (yAxisMax this)"
  by (simp add: yAxisMin_def yAxisMax_def)

text \<open>
  Claim C5. When the \<open>filtered\<close> event fires, the handler calls \<open>replaceFilter\<close> with
  the parent's \<open>filter()\<close> on every child, in the order of the child list, and makes no
  other call; afterwards the filter set of every child is the parent's, nothing else of
  the child has changed, and a chart that is not a child is untouched.
\<close>

theorem filtered_replaces_child_filters:
  "trace (on_filtered this w) =
     trace w @ map (\<lambda>child. (child, ReplaceFilter (filters this))) (p_children this)
   \<and> (\<forall>child \<in> set (p_children this).
         store (on_filtered this w) child = (store w child)\<lparr>c_filters := filters this\<rparr>
         \<and> c_filters (store (on_filtered this w) child) = filters this)
   \<and> (\<forall>child. child \<notin> set (p_children this) \<longrightarrow> store (on_filtered this w) child = store w child)"
proof -
  have idem: "\<And>ch. apply_calls [ReplaceFilter (filters this)] (apply_calls [ReplaceFilter (filters this)] ch)
      = apply_calls [ReplaceFilter (filters this)] ch"
    by (simp add: apply_calls_def)
  have t: "trace (on_filtered this w) =
     trace w @ map (\<lambda>child. (child, ReplaceFilter (filters this))) (p_children this)"
    unfolding on_filtered_broadcast trace_broadcast by simp
  have s: "\<And>child. store (on_filtered this w) child =
      (if child \<in> set (p_children this) then (store w child)\<lparr>c_filters := filters this\<rparr> else store w child)"
    unfolding on_filtered_broadcast store_broadcast[OF idem]
    by (simp add: apply_calls_def)
  show ?thesis using t s by simp
qed

theorem filtered_replaces_child_filters_witness:
  "trace (on_filtered example_chart example_world) =
     [(0, ReplaceFilter (Obj 13)), (1, ReplaceFilter (Obj 13)), (2, ReplaceFilter (Obj 13))]
   \<and> c_filters (store example_world 1) = Null
   \<and> c_filters (store (on_filtered example_chart example_world) 0) = Obj 13
   \<and> c_filters (store (on_filtered example_chart example_world) 1) = Obj 13
   \<and> c_filters (store (on_filtered example_chart example_world) 2) = Obj 13
   \<and> store (on_filtered example_chart example_world) 3 = store example_world 3"
  using filtered_replaces_child_filters[of example_chart example_world]
  by (simp add: example_defs)

text \<open>
  Claim C6. Which side a child is on is decided by its \<open>useRightYAxis()\<close> alone. For a
  side with at least one child, the minimum extent is the least \<open>yAxisMin()\<close> of that
  side's children and the maximum extent is the greatest \<open>yAxisMax()\<close> of that side's
  children plus the y-axis padding; no child of the other side enters either.
\<close>

theorem side_extents:
  fixes this :: composite and w :: world and rnd :: rounding
  defines "L \<equiv> filter (\<lambda>child. \<not> c_useRightYAxis (store w child)) (p_children this)"
    and "R \<equiv> filter (\<lambda>child. c_useRightYAxis (store w child)) (p_children this)"
  shows "(L \<noteq> [] \<longrightarrow>
            yAxisMin_left this w = Some (Num (Min (set (map (\<lambda>c. c_yAxisMin (store w c)) L))))
          \<and> yAxisMax_left rnd this w =
              js_add rnd (Num (Max (set (map (\<lambda>c. c_yAxisMax (store w c)) L)))) (Num (yAxisPadding this)))
       \<and> (R \<noteq> [] \<longrightarrow>
            rightYAxisMin this w = Some (Num (Min (set (map (\<lambda>c. c_yAxisMin (store w c)) R))))
          \<and> rightYAxisMax rnd this w =
              js_add rnd (Num (Max (set (map (\<lambda>c. c_yAxisMax (store w c)) R)))) (Num (yAxisPadding this)))"
proof -
  have l: "leftYAxisChildren this w = L" and r: "rightYAxisChildren this w = R"
    by (simp_all add: leftYAxisChildren_def rightYAxisChildren_def L_def R_def)
  have "L \<noteq> [] \<Longrightarrow> yAxisMin_left this w = Some (Num (Min (set (map (\<lambda>c. c_yAxisMin (store w c)) L))))"
    by (simp add: yAxisMin_left_def l getYAxisMin_def d3_min_Min)
  moreover have "L \<noteq> [] \<Longrightarrow> yAxisMax_left rnd this w =
      js_add rnd (Num (Max (set (map (\<lambda>c. c_yAxisMax (store w c)) L)))) (Num (yAxisPadding this))"
    by (simp add: yAxisMax_left_def l getYAxisMax_def d3_max_Max utils_add_def)
  moreover have "R \<noteq> [] \<Longrightarrow> rightYAxisMin this w = Some (Num (Min (set (map (\<lambda>c. c_yAxisMin (store w c)) R))))"
    by (simp add: rightYAxisMin_def r getYAxisMin_def d3_min_Min)
  moreover have "R \<noteq> [] \<Longrightarrow> rightYAxisMax rnd this w =
      js_add rnd (Num (Max (set (map (\<lambda>c. c_yAxisMax (store w c)) R)))) (Num (yAxisPadding this))"
    by (simp add: rightYAxisMax_def r getYAxisMax_def d3_max_Max utils_add_def)
  ultimately show ?thesis by blast
qed

theorem side_extents_witness:
  "yAxisMin_left example_chart example_world = Some (Num (- 5))
   \<and> yAxisMax_left exact example_chart example_world = Num 9
   \<and> rightYAxisMin example_chart example_world = Some (Num (- 10))
   \<and> rightYAxisMax exact example_chart example_world = Num 41"
  using side_extents[of example_world example_chart exact]
  by (simp add: example_defs exact_def)

text \<open>
  Claim C7. \<open>compose(children)\<close> makes the given array the child list and, for each child
  in order, calls \<open>height\<close>, \<open>width\<close> and \<open>margins\<close> with the parent's current values,
  then \<open>title\<close> with the parent's title function if and only if title sharing is enabled
  at that moment, then \<open>options\<close> with the parent's child-option bag, and makes no other
  call; afterwards each child holds these values, and a chart that is not in the array is
  untouched.
\<close>

theorem compose_pushes_down:
  "fst (compose cs this w) = this\<lparr>p_children := cs\<rparr>
   \<and> children (fst (compose cs this w)) = cs
   \<and> trace (snd (compose cs this w)) =
       trace w @ concat (map (\<lambda>child.
           [(child, Height (height this)), (child, Width (width this)), (child, Margins (margins this))]
           @ (if truthy (p_shareTitle this) then [(child, Title (title this))] else [])
           @ [(child, Options (p_childOptions this))]) cs)
   \<and> (\<forall>child \<in> set cs.
         store (snd (compose cs this w)) child =
           (store w child)\<lparr>c_height := height this, c_width := width this, c_margins := margins this,
              c_title := (if truthy (p_shareTitle this) then title this else c_title (store w child)),
              c_options := p_childOptions this\<rparr>)
   \<and> (\<forall>child. child \<notin> set cs \<longrightarrow> store (snd (compose cs this w)) child = store w child)"
proof -
  have t: "trace (snd (compose cs this w)) =
       trace w @ concat (map (\<lambda>child.
           [(child, Height (height this)), (child, Width (width this)), (child, Margins (margins this))]
           @ (if truthy (p_shareTitle this) then [(child, Title (title this))] else [])
           @ [(child, Options (p_childOptions this))]) cs)"
    by (simp add: compose_broadcast trace_broadcast compose_calls_def)
  have s: "\<And>child. store (snd (compose cs this w)) child =
      (if child \<in> set cs then apply_calls (compose_calls this) (store w child) else store w child)"
    by (simp add: compose_broadcast store_broadcast[OF compose_calls_idem])
  show ?thesis
    using t s by (simp add: apply_compose_calls compose_broadcast children_def)
qed

theorem compose_pushes_down_witness:
  "children (fst (compose [1, 2] (CompositeChart example_super (Obj 14) (Obj 15)) example_world)) = [1, 2]
   \<and> trace (snd (compose [1, 2] (CompositeChart example_super (Obj 14) (Obj 15)) example_world)) =
       [(1, Height (Number (Num 300))), (1, Width (Number (Num 400))), (1, Margins (Obj 10)),
        (1, Title (Obj 11)), (1, Options (Obj 14)),
        (2, Height (Number (Num 300))), (2, Width (Number (Num 400))), (2, Margins (Obj 10)),
        (2, Title (Obj 11)), (2, Options (Obj 14))]
   \<and> store (snd (compose [1, 2] (CompositeChart example_super (Obj 14) (Obj 15)) example_world)) 2 =
       (example_child False (- 5) 3 ''c'')
         \<lparr>c_height := Number (Num 300), c_width := Number (Num 400), c_margins := Obj 10,
          c_title := Obj 11, c_options := Obj 14\<rparr>
   \<and> store (snd (compose [1, 2] (CompositeChart example_super (Obj 14) (Obj 15)) example_world)) 0 =
       example_child False (- 2) 8 ''a''
   \<and> trace (snd (compose [1]
        ((CompositeChart example_super (Obj 14) (Obj 15))\<lparr>p_shareTitle := Bool False\<rparr>) example_world)) =
       [(1, Height (Number (Num 300))), (1, Width (Number (Num 400))), (1, Margins (Obj 10)),
        (1, Options (Obj 14))]"
proof -
  let ?p = "CompositeChart example_super (Obj 14) (Obj 15)"
  note on = compose_pushes_down[of "[1, 2]" ?p example_world]
  note off = compose_pushes_down[of "[1]" "?p\<lparr>p_shareTitle := Bool False\<rparr>" example_world]
  have a: "children (fst (compose [1, 2] ?p example_world)) = [1, 2]"
    using on by blast
  have b: "trace (snd (compose [1, 2] ?p example_world)) =
       [(1, Height (Number (Num 300))), (1, Width (Number (Num 400))), (1, Margins (Obj 10)),
        (1, Title (Obj 11)), (1, Options (Obj 14)),
        (2, Height (Number (Num 300))), (2, Width (Number (Num 400))), (2, Margins (Obj 10)),
        (2, Title (Obj 11)), (2, Options (Obj 14))]"
    by (subst on[THEN conjunct2, THEN conjunct2, THEN conjunct1]) (simp add: example_defs)
  have "(2::nat) \<in> set [1, 2]" by simp
  from on[THEN conjunct2, THEN conjunct2, THEN conjunct2, THEN conjunct1, THEN bspec, OF this]
  have c: "store (snd (compose [1, 2] ?p example_world)) 2 =
       (example_child False (- 5) 3 ''c'')
         \<lparr>c_height := Number (Num 300), c_width := Number (Num 400), c_margins := Obj 10,
          c_title := Obj 11, c_options := Obj 14\<rparr>"
    by (simp add: example_defs)
  have "(0::nat) \<notin> set [1, 2]" by simp
  from on[THEN conjunct2, THEN conjunct2, THEN conjunct2, THEN conjunct2, THEN spec, THEN mp, OF this]
  have d: "store (snd (compose [1, 2] ?p example_world)) 0 = example_child False (- 2) 8 ''a''"
    by (simp add: example_defs)
  have e: "trace (snd (compose [1] (?p\<lparr>p_shareTitle := Bool False\<rparr>) example_world)) =
       [(1, Height (Number (Num 300))), (1, Width (Number (Num 400))), (1, Margins (Obj 10)),
        (1, Options (Obj 14))]"
    by (subst off[THEN conjunct2, THEN conjunct2, THEN conjunct1]) (simp add: example_defs)
  show ?thesis using a b c d e by blast
qed

text \<open>
  Claim C8 has \<open>useRightAxisGridLines()\<close>, called with no argument, return the configured
  value and leave the configuration as it is. The method tests \<open>!arguments\<close>, which is
  false for every call, where its siblings test \<open>!arguments.length\<close>: called with no
  argument on a new chart it stores \<open>undefined\<close> in place of \<open>false\<close> and returns the
  chart.
\<close>

theorem useRightAxisGridLines_without_argument:
  "useRightAxisGridLines [] (CompositeChart super emptyBag axisRight) =
     (This, (CompositeChart super emptyBag axisRight)\<lparr>p_rightAxisGridLines := Undefined\<rparr>)
   \<and> p_rightAxisGridLines (CompositeChart super emptyBag axisRight) = Bool False
   \<and> fst (useRightAxisGridLines [] (CompositeChart super emptyBag axisRight)) \<noteq> Value (Bool False)
   \<and> p_rightAxisGridLines (snd (useRightAxisGridLines [] (CompositeChart super emptyBag axisRight))) =
       Undefined"
  by (simp add: useRightAxisGridLines_def arguments_truthy_def param_def CompositeChart_def)

text \<open>
  Claim C9. Right after construction \<open>shareTitle()\<close> returns \<open>true\<close>, and \<open>shareColors()\<close>
  and \<open>alignYAxes()\<close> return \<open>false\<close>, each leaving the chart as it is; and every child
  composed into the new chart is called with the parent's title function and holds it
  afterwards.
\<close>

theorem constructor_defaults:
  "shareTitle [] (CompositeChart super emptyBag axisRight) =
     (Value (Bool True), CompositeChart super emptyBag axisRight)
   \<and> shareColors [] (CompositeChart super emptyBag axisRight) =
     (Value (Bool False), CompositeChart super emptyBag axisRight)
   \<and> alignYAxes rescale [] (CompositeChart super emptyBag axisRight) =
     (Value (Bool False), CompositeChart super emptyBag axisRight)
   \<and> (\<forall>child \<in> set cs.
         (child, Title (title super)) \<in>
            set (trace (snd (compose cs (CompositeChart super emptyBag axisRight) w)))
         \<and> c_title (store (snd (compose cs (CompositeChart super emptyBag axisRight) w)) child) =
            title super)"
proof -
  let ?p = "CompositeChart super emptyBag axisRight"
  have sh: "truthy (p_shareTitle ?p)" and ti: "title ?p = title super"
    by (simp_all add: CompositeChart_def)
  have t: "trace (snd (compose cs ?p w)) =
     trace w @ concat (map (\<lambda>c. map (Pair c) (compose_calls ?p)) cs)"
    by (simp add: compose_broadcast trace_broadcast)
  have m: "Title (title super) \<in> set (compose_calls ?p)"
    using sh ti by (simp add: compose_calls_def)
  have s: "\<And>child. store (snd (compose cs ?p w)) child =
      (if child \<in> set cs then apply_calls (compose_calls ?p) (store w child) else store w child)"
    by (simp add: compose_broadcast store_broadcast[OF compose_calls_idem])
  have g: "shareTitle [] ?p = (Value (Bool True), ?p)" "shareColors [] ?p = (Value (Bool False), ?p)"
    "alignYAxes rescale [] ?p = (Value (Bool False), ?p)"
    by (simp_all add: shareTitle_def shareColors_def alignYAxes_def CompositeChart_def)
  have c: "\<forall>child \<in> set cs. (child, Title (title super)) \<in> set (trace (snd (compose cs ?p w)))
         \<and> c_title (store (snd (compose cs ?p w)) child) = title super"
    using m sh ti by (auto simp: t s apply_compose_calls)
  show ?thesis using g c by blast
qed

theorem constructor_defaults_witness:
  "fst (shareTitle [] (CompositeChart example_super (Obj 14) (Obj 15))) = Value (Bool True)
   \<and> fst (shareColors [] (CompositeChart example_super (Obj 14) (Obj 15))) = Value (Bool False)
   \<and> fst (alignYAxes id [] (CompositeChart example_super (Obj 14) (Obj 15))) = Value (Bool False)
   \<and> c_title (store example_world 1) = Undefined
   \<and> c_title (store (snd (compose [0, 1] (CompositeChart example_super (Obj 14) (Obj 15))
        example_world)) 1) = Obj 11
   \<and> (1, Title (Obj 11)) \<in> set (trace (snd (compose [0, 1]
        (CompositeChart example_super (Obj 14) (Obj 15)) example_world)))"
  using constructor_defaults[of example_super "Obj 14" "Obj 15" id "[0, 1]" example_world]
  by (simp add: example_super_def example_world_def example_child_def)

text \<open>
  Claim C10. \<open>legendables()\<close> returns the concatenation, in the order of the child list,
  of what each child's \<open>legendables()\<close> returns, each child's items in the child's own
  order (with color sharing the child reports them under the parent's colors, which it
  has been given just before); a chart without children has no legend items.
\<close>

theorem legendables_concat:
  "fst (legendables this w) =
     concat (map (\<lambda>child. c_legendablesOf (store w child)
        (if truthy (p_shareColors this) then colors this else c_colors (store w child))) (p_children this))
   \<and> fst (legendables this w) =
     concat (map (\<lambda>child. child_legendables child (snd (legendables this w))) (p_children this))
   \<and> (p_children this = [] \<longrightarrow> fst (legendables this w) = [])"
proof -
  have idem: "\<And>ch. apply_calls (share_colors_calls this) (apply_calls (share_colors_calls this) ch) =
     apply_calls (share_colors_calls this) ch"
    by (simp add: share_colors_calls_def apply_calls_def)
  have st: "\<And>child. child \<in> set (p_children this) \<Longrightarrow>
     store (snd (legendables this w)) child = apply_calls (share_colors_calls this) (store w child)"
    by (simp add: legendables_eq store_broadcast[OF idem])
  have s: "\<And>child. child \<in> set (p_children this) \<Longrightarrow>
     child_legendables child (snd (legendables this w)) = legend_of this w child"
    by (simp add: st child_legendables_def apply_calls_def share_colors_calls_def legend_of_def)
  have a: "fst (legendables this w) = concat (map (legend_of this w) (p_children this))"
    by (simp add: legendables_eq)
  have b: "map (\<lambda>child. child_legendables child (snd (legendables this w))) (p_children this) =
     map (legend_of this w) (p_children this)"
    by (rule map_cong[OF refl]) (rule s)
  have c: "legend_of this w = (\<lambda>child. c_legendablesOf (store w child)
        (if truthy (p_shareColors this) then colors this else c_colors (store w child)))"
    by (intro ext) (simp add: legend_of_def)
  have d: "fst (legendables this w) =
     concat (map (\<lambda>child. child_legendables child (snd (legendables this w))) (p_children this))"
    unfolding b by (rule a)
  have e: "p_children this = [] \<longrightarrow> fst (legendables this w) = []"
    by (simp add: a)
  show ?thesis using a d e unfolding c by blast
qed

theorem legendables_concat_witness:
  "fst (legendables example_chart example_world) =
     [Str ''a'', Obj 12, Str ''b'', Obj 12, Str ''c'', Obj 12]
   \<and> fst (legendables (example_chart\<lparr>p_shareColors := Bool False, p_children := [2, 0]\<rparr>) example_world) =
     [Str ''c'', Undefined, Str ''a'', Undefined]
   \<and> fst (legendables (CompositeChart example_super (Obj 14) (Obj 15)) example_world) = []"
  using legendables_concat[of example_chart example_world]
    legendables_concat[of "example_chart\<lparr>p_shareColors := Bool False, p_children := [2, 0]\<rparr>" example_world]
    legendables_concat[of "CompositeChart example_super (Obj 14) (Obj 15)" example_world]
  by (simp add: example_defs)

end
